theory Spec2Isabelle
  imports Main "HOL-Library.Word"
begin

section \<open>Data model\<close>

text \<open>
  A shallow embedding of \<^verbatim>\<open>be/src/exec/partitioned-hash-join-node-ir.cc\<close>:
  \<^verbatim>\<open>EvalOtherJoinConjuncts\<close>, \<^verbatim>\<open>ProcessProbeBatch<JoinOp>\<close>, the dispatching
  \<^verbatim>\<open>ProcessProbeBatch\<close> and \<^verbatim>\<open>ProcessBuildBatch\<close>.

  A \<^verbatim>\<open>TupleRow*\<close> of the build or the probe side is an opaque reference, a number here.
  The row that \<^verbatim>\<open>CreateOutputRow(out_row, probe_row, build_row)\<close> writes into the output
  batch is the pair of the probe row and the build row, \<open>None\<close> standing for the
  \<^verbatim>\<open>NULL\<close> build row.  The integers of the source (\<^verbatim>\<open>int\<close> counters bounded by the sizes of
  the batches) are \<open>int\<close>; the hash is a 32-bit word.
\<close>

type_synonym tuple_row = nat

type_synonym out_row = "tuple_row \<times> tuple_row option"

datatype Status = OK | Error string

text \<open>
  The six join kinds the dispatcher knows; \<open>OTHER_JOIN_OP\<close> stands for every other value
  of the enumeration, which the dispatcher sends to its \<^verbatim>\<open>default:\<close> branch.
\<close>

datatype TJoinOp =
    INNER_JOIN
  | LEFT_OUTER_JOIN
  | LEFT_SEMI_JOIN
  | RIGHT_OUTER_JOIN
  | FULL_OUTER_JOIN
  | LEFT_ANTI_JOIN
  | OTHER_JOIN_OP

text \<open>
  Modelled from the spec: \<^verbatim>\<open>RowBatch\<close> (\<^verbatim>\<open>runtime/row-batch.h\<close> is not among the sources).
  "An ordered sequence of up to capacity rows; mutable append position (num_rows), a
  commit operation that finalizes how many appended rows are visible, and an at-capacity
  predicate."  The batch holds its visible rows; the rows written behind them and not yet
  committed are the \<open>row_slots\<close> of the running call (see \<open>probe_locals\<close>).
\<close>

record 'r RowBatch =
  capacity :: int
  tuple_rows :: "'r list"

definition num_rows :: "'r RowBatch \<Rightarrow> int" where
  "num_rows b = int (length (tuple_rows b))"

definition AtCapacity :: "'r RowBatch \<Rightarrow> bool" where
  "AtCapacity b = (num_rows b = capacity b)"

text \<open>Reading a row outside \<open>0 ..< num_rows\<close> is undefined in the source: \<open>None\<close>.\<close>

definition GetRow :: "'r RowBatch \<Rightarrow> int \<Rightarrow> 'r option" where
  "GetRow b i = (if 0 \<le> i \<and> i < num_rows b then Some (tuple_rows b ! nat i) else None)"

definition CommitRows :: "'r RowBatch \<Rightarrow> int \<Rightarrow> 'r list \<Rightarrow> 'r RowBatch" where
  "CommitRows b n slots = b\<lparr>tuple_rows := tuple_rows b @ take (nat n) slots\<rparr>"

text \<open>
  Modelled from the spec: \<^verbatim>\<open>Partition\<close> (declared in \<^verbatim>\<open>partitioned-hash-join-node.h\<close>, not
  among the sources): "owns one bucket's build-side row buffer, its probe-side spill row
  buffer (when spilled), and, while resident, an in-memory hash table over its build rows".
  A row buffer is the list of the rows appended to it; a pointer that may be \<^verbatim>\<open>NULL\<close> is an
  option; the hash table is named by a number.
\<close>

type_synonym BufferedTupleStream = "tuple_row list"

record Partition =
  is_closed :: bool
  is_spilled :: bool
  hash_tbl :: "nat option"
  build_rows :: "BufferedTupleStream option"
  probe_rows :: "BufferedTupleStream option"

text \<open>
  The collaborators the functions call and the constant they use, none of them among the
  sources, are parameters:
  \<^item> \<open>NUM_PARTITIONING_BITS\<close>, the constant of the header;
  \<^item> \<open>EvalAndHashProbe\<close>, \<open>EvalAndHashBuild\<close>: the hash of a row, \<open>None\<close> when the call
    returns false (the spec's "absent");
  \<^item> \<open>Find\<close>: \<^verbatim>\<open>HashTable::Find\<close>, given the table and the row and hash that the hash
    context holds; it yields the rows that the iterator will visit, in order;
  \<^item> \<open>other_join_conjunct_ctxs\<close>, \<open>conjunct_ctxs\<close>: the conjuncts, each a predicate on
    the output row;
  \<^item> \<open>stream_failure\<close>: whether the backing storage refuses a row, and with which error
    message.
\<close>

record env =
  NUM_PARTITIONING_BITS :: int
  EvalAndHashProbe :: "tuple_row \<Rightarrow> 32 word option"
  EvalAndHashBuild :: "tuple_row \<Rightarrow> 32 word option"
  Find :: "nat \<Rightarrow> tuple_row \<Rightarrow> 32 word \<Rightarrow> tuple_row list"
  other_join_conjunct_ctxs :: "(out_row \<Rightarrow> bool) list"
  conjunct_ctxs :: "(out_row \<Rightarrow> bool) list"
  stream_failure :: "BufferedTupleStream \<Rightarrow> tuple_row \<Rightarrow> string option"

text \<open>
  The fields of \<^verbatim>\<open>PartitionedHashJoinNode\<close> that the two functions read and write.
  Isabelle has no names ending in an underscore, so a member \<^verbatim>\<open>m_\<close> of the source is the
  field \<open>m\<close> here.

  Modelled from the spec: the match iterator \<open>hash_tbl_iterator\<close>
  (\<^verbatim>\<open>exec/hash-table.inline.h\<close> is not among the sources), "an iterator over the current
  row's hash-table match bucket".  It is the list of the candidate build rows it has yet
  to visit: \<^verbatim>\<open>AtEnd()\<close> is the empty list, \<^verbatim>\<open>GetRow()\<close> its head, \<^verbatim>\<open>Next<true>(ht_ctx)\<close>
  its tail, \<^verbatim>\<open>reset()\<close> the empty list.  \<^verbatim>\<open>set_matched(true)\<close> sets the flag of the node
  the iterator is at; \<open>ht_matched\<close> is the set of the build rows whose node has the flag.
\<close>

record PartitionedHashJoinNode =
  probe_batch :: "tuple_row RowBatch"
  probe_batch_pos :: int
  current_probe_row :: "tuple_row option"
  hash_tbl_iterator :: "tuple_row list"
  matched_probe :: bool
  input_partition :: "Partition option"
  hash_partitions :: "Partition list"
  status :: Status
  num_rows_returned :: int
  ht_matched :: "tuple_row set"

section \<open>The collaborators\<close>

text \<open>
  Modelled from the spec: \<^verbatim>\<open>ExecNode::EvalConjuncts\<close> (\<^verbatim>\<open>exec-node.cc\<close> is not among the
  sources), "pure, side-effect-free predicate evaluations over a row": the row passes
  when every conjunct holds of it.
\<close>

definition EvalConjuncts :: "(out_row \<Rightarrow> bool) list \<Rightarrow> out_row \<Rightarrow> bool" where
  "EvalConjuncts ctxs row = list_all (\<lambda>ctx. ctx row) ctxs"

text \<open>Lines 31-34: the wrapper with a name of its own.\<close>

definition EvalOtherJoinConjuncts :: "(out_row \<Rightarrow> bool) list \<Rightarrow> out_row \<Rightarrow> bool" where
  "EvalOtherJoinConjuncts ctxs row = EvalConjuncts ctxs row"

definition CreateOutputRow :: "tuple_row \<Rightarrow> tuple_row option \<Rightarrow> out_row" where
  "CreateOutputRow probe_row build_row = (probe_row, build_row)"

text \<open>
  Modelled from the spec: \<^verbatim>\<open>AppendRow\<close> (\<^verbatim>\<open>partitioned-hash-join-node.inline.h\<close> is not
  among the sources): "append(row) -> bool (false/failure signals out-of-space or I/O
  error)", "appending fails (propagating the stored error) if the buffer's backing
  storage cannot grow".  A failure stores its error in \<open>status\<close> and leaves the buffer as
  it was; a success puts the row at the end of the buffer.
\<close>

definition AppendRow ::
  "env \<Rightarrow> BufferedTupleStream \<Rightarrow> tuple_row \<Rightarrow> PartitionedHashJoinNode \<Rightarrow>
   bool \<times> BufferedTupleStream \<times> PartitionedHashJoinNode" where
  "AppendRow E stream row s =
     (case stream_failure E stream row of
        None \<Rightarrow> (True, stream @ [row], s)
      | Some msg \<Rightarrow> (False, stream, s\<lparr>status := Error msg\<rparr>))"

text \<open>
  \<^verbatim>\<open>hash >> (32 - NUM_PARTITIONING_BITS)\<close> on a \<^verbatim>\<open>uint32_t\<close>.  A shift count outside
  \<open>0 ..< 32\<close> is undefined in C++: \<open>None\<close>.
\<close>

definition partition_idx :: "env \<Rightarrow> 32 word \<Rightarrow> 32 word option" where
  "partition_idx E hash =
     (let shift = 32 - NUM_PARTITIONING_BITS E
      in if 0 \<le> shift \<and> shift < 32 then Some (drop_bit (nat shift) hash) else None)"

text \<open>\<^verbatim>\<open>hash_partitions_[i]\<close>; an index past the end of the vector is undefined: \<open>None\<close>.\<close>

definition hash_partition :: "PartitionedHashJoinNode \<Rightarrow> 32 word \<Rightarrow> Partition option" where
  "hash_partition s i =
     (if unat i < length (hash_partitions s) then Some (hash_partitions s ! unat i) else None)"


section \<open>\<^verbatim>\<open>ProcessProbeBatch<JoinOp>\<close>\<close>

text \<open>
  The local variables of a call: \<open>num_rows_added\<close>, and the slots of the output batch that
  \<open>out_row\<close> has been moved past (\<^verbatim>\<open>out_row = out_row->next_row(out_batch)\<close>), which hold
  the rows that \<^verbatim>\<open>CommitRows\<close> will make visible.
\<close>

record probe_locals =
  num_rows_added :: int
  row_slots :: "out_row list"

text \<open>
  How the loop of lines 51-146 is left: by \<^verbatim>\<open>goto end\<close> (or by its condition turning false,
  which falls through to the label), by \<^verbatim>\<open>return status_\<close>, or by an operation that the
  source leaves undefined.  The \<^verbatim>\<open>DCHECK\<close>s are debug assertions, compiled to nothing in a
  release build: the model does not stop at them.
\<close>

datatype loop_exit = goto_end | return_status | undefined_behaviour

text \<open>
  Lines 54-85, the body of the loop over the match iterator, at the candidate
  \<open>matched_build_row\<close> with the candidates \<open>rest\<close> behind it.  The first component of the
  result is \<open>None\<close> when the loop goes on to its next turn (\<^verbatim>\<open>continue\<close>, or the end of
  the body), \<open>Some False\<close> at the \<^verbatim>\<open>break\<close> of line 68 and \<open>Some True\<close> at the
  \<^verbatim>\<open>goto end\<close> of line 84.
\<close>

definition match_step ::
  "env \<Rightarrow> TJoinOp \<Rightarrow> int \<Rightarrow> tuple_row \<Rightarrow> tuple_row \<Rightarrow> tuple_row list \<Rightarrow>
   PartitionedHashJoinNode \<times> probe_locals \<Rightarrow>
   bool option \<times> PartitionedHashJoinNode \<times> probe_locals" where
  "match_step E JoinOp max_rows probe_row matched_build_row rest sl =
     (let s = fst sl; l = snd sl;
          out_row = CreateOutputRow probe_row (Some matched_build_row) in
      if \<not> EvalOtherJoinConjuncts (other_join_conjunct_ctxs E) out_row
      then (None, s\<lparr>hash_tbl_iterator := rest\<rparr>, l)
      else if JoinOp = LEFT_ANTI_JOIN
      then (Some False, s\<lparr>matched_probe := True, hash_tbl_iterator := []\<rparr>, l)
      else
        (let s1 = s\<lparr>matched_probe := True\<rparr>;
             s2 = (if JoinOp = RIGHT_OUTER_JOIN \<or> JoinOp = FULL_OUTER_JOIN
                   then s1\<lparr>ht_matched := insert matched_build_row (ht_matched s1)\<rparr>
                   else s1);
             s3 = (if JoinOp = LEFT_SEMI_JOIN
                   then s2\<lparr>hash_tbl_iterator := []\<rparr>
                   else s2\<lparr>hash_tbl_iterator := rest\<rparr>)
         in if EvalConjuncts (conjunct_ctxs E) out_row
            then (let l1 = l\<lparr>num_rows_added := num_rows_added l + 1,
                              row_slots := row_slots l @ [out_row]\<rparr>
                  in if num_rows_added l1 = max_rows then (Some True, s3, l1)
                     else (None, s3, l1))
            else (None, s3, l)))"

lemma match_step_shortens:
  "match_step E JoinOp max_rows probe_row b rest sl = (x, s', l') \<Longrightarrow>
   hash_tbl_iterator s' = rest \<or> hash_tbl_iterator s' = []"
  by (auto simp: match_step_def Let_def split: if_splits)

text \<open>
  Lines 53-86, the loop over the match iterator for the current probe row.  The Boolean of
  the result tells whether \<^verbatim>\<open>goto end\<close> was taken.
\<close>

function scan_matches ::
  "env \<Rightarrow> TJoinOp \<Rightarrow> int \<Rightarrow> tuple_row \<Rightarrow> PartitionedHashJoinNode \<times> probe_locals \<Rightarrow>
   bool \<times> PartitionedHashJoinNode \<times> probe_locals" where
  "scan_matches E JoinOp max_rows probe_row sl =
     (case hash_tbl_iterator (fst sl) of
        [] \<Rightarrow> (False, sl)
      | matched_build_row # rest \<Rightarrow>
          (case match_step E JoinOp max_rows probe_row matched_build_row rest sl of
             (None, sl1) \<Rightarrow> scan_matches E JoinOp max_rows probe_row sl1
           | (Some g, sl1) \<Rightarrow> (g, sl1)))"
  by pat_completeness auto
termination
proof (relation "measure (\<lambda>(E, JoinOp, max_rows, probe_row, sl). length (hash_tbl_iterator (fst sl)))")
  fix E JoinOp max_rows probe_row sl b rest x sl1
  assume it: "hash_tbl_iterator (fst sl) = b # rest"
    and x: "(x, sl1) = match_step E JoinOp max_rows probe_row b rest sl" "x = None"
  from x have "match_step E JoinOp max_rows probe_row b rest sl = (None, fst sl1, snd sl1)"
    by (simp add: eq_commute)
  from match_step_shortens[OF this] it
  show "((E, JoinOp, max_rows, probe_row, sl1), E, JoinOp, max_rows, probe_row, sl)
        \<in> measure (\<lambda>(E, JoinOp, max_rows, probe_row, sl). length (hash_tbl_iterator (fst sl)))"
    by auto
qed simp

declare scan_matches.simps [simp del]

lemma scan_matches_Nil:
  "hash_tbl_iterator (fst sl) = [] \<Longrightarrow> scan_matches E JoinOp max_rows p sl = (False, sl)"
  by (simp add: scan_matches.simps)

lemma scan_matches_Cons:
  "hash_tbl_iterator (fst sl) = b # rest \<Longrightarrow>
   scan_matches E JoinOp max_rows p sl =
     (case match_step E JoinOp max_rows p b rest sl of
        (None, sl1) \<Rightarrow> scan_matches E JoinOp max_rows p sl1
      | (Some g, sl1) \<Rightarrow> (g, sl1))"
  by (simp add: scan_matches.simps[of _ _ _ _ sl])

text \<open>Induction along the turns of the loop, for fixed parameters.\<close>

lemma scan_induct [case_names Nil Cons]:
  assumes "\<And>sl. hash_tbl_iterator (fst sl) = [] \<Longrightarrow> P sl"
    and "\<And>sl b rest x sl1. hash_tbl_iterator (fst sl) = b # rest \<Longrightarrow>
           match_step E JoinOp max_rows p b rest sl = (x, sl1) \<Longrightarrow>
           (x = None \<Longrightarrow> P sl1) \<Longrightarrow> P sl"
  shows "P sl"
proof (induction "length (hash_tbl_iterator (fst sl))" arbitrary: sl rule: less_induct)
  case less
  show ?case
  proof (cases "hash_tbl_iterator (fst sl)")
    case Nil
    then show ?thesis by (rule assms(1))
  next
    case (Cons b rest)
    obtain x sl1 where ms: "match_step E JoinOp max_rows p b rest sl = (x, sl1)"
      by (cases "match_step E JoinOp max_rows p b rest sl")
    then have "match_step E JoinOp max_rows p b rest sl = (x, fst sl1, snd sl1)" by simp
    from match_step_shortens[OF this] Cons
    have "length (hash_tbl_iterator (fst sl1)) < length (hash_tbl_iterator (fst sl))" by auto
    then have "P sl1" by (rule less)
    with Cons ms show ?thesis by (rule assms(2))
  qed
qed

lemma match_step_frame:
  "match_step E JoinOp max_rows p b rest sl = (x, s', l') \<Longrightarrow>
   probe_batch s' = probe_batch (fst sl) \<and> probe_batch_pos s' = probe_batch_pos (fst sl)"
  by (auto simp: match_step_def Let_def split: if_splits)

lemma scan_matches_frame:
  "scan_matches E JoinOp max_rows p sl = (g, s', l') \<Longrightarrow>
   probe_batch s' = probe_batch (fst sl) \<and> probe_batch_pos s' = probe_batch_pos (fst sl)"
proof (induction sl rule: scan_induct[where E=E and JoinOp=JoinOp and max_rows=max_rows and p=p])
  case (Nil sl)
  then show ?case by (auto simp: scan_matches_Nil)
next
  case (Cons sl b rest x sl1)
  from Cons.hyps(2) have "match_step E JoinOp max_rows p b rest sl = (x, fst sl1, snd sl1)"
    by simp
  note fr = match_step_frame[OF this]
  from Cons fr show ?case
    by (cases x) (auto simp: scan_matches_Cons)
qed

text \<open>
  Lines 52-101: the matches of the current probe row, then the row paired with
  \<^verbatim>\<open>NULL\<close> for the anti, left-outer and full-outer joins.
\<close>

definition current_row_phase ::
  "env \<Rightarrow> TJoinOp \<Rightarrow> int \<Rightarrow> PartitionedHashJoinNode \<times> probe_locals \<Rightarrow>
   bool \<times> PartitionedHashJoinNode \<times> probe_locals" where
  "current_row_phase E JoinOp max_rows sl =
     (case current_probe_row (fst sl) of
        None \<Rightarrow> (False, sl)
      | Some probe_row \<Rightarrow>
          (case scan_matches E JoinOp max_rows probe_row sl of
             (True, s1, l1) \<Rightarrow> (True, s1, l1)
           | (False, s1, l1) \<Rightarrow>
               if (JoinOp = LEFT_ANTI_JOIN \<or> JoinOp = LEFT_OUTER_JOIN \<or>
                   JoinOp = FULL_OUTER_JOIN) \<and> \<not> matched_probe s1
               then (let out_row = CreateOutputRow probe_row None in
                     if EvalConjuncts (conjunct_ctxs E) out_row
                     then (let l2 = l1\<lparr>num_rows_added := num_rows_added l1 + 1,
                                        row_slots := row_slots l1 @ [out_row]\<rparr>;
                               s2 = s1\<lparr>matched_probe := True\<rparr>
                           in (num_rows_added l2 = max_rows, s2, l2))
                     else (False, s1, l1))
               else (False, s1, l1)))"

text \<open>
  Lines 118-129: the partition of a probe row.  The pointer is modelled by the place it
  points to, so that the append of line 137 can be written back.
\<close>

datatype partition_ref = Input_partition | Hash_partition nat

definition probe_partition ::
  "env \<Rightarrow> PartitionedHashJoinNode \<Rightarrow> 32 word \<Rightarrow> (partition_ref \<times> Partition) option" where
  "probe_partition E s hash =
     (if input_partition s \<noteq> None \<and> hash_tbl (the (input_partition s)) \<noteq> None
      then Some (Input_partition, the (input_partition s))
      else (case partition_idx E hash of
              None \<Rightarrow> None
            | Some idx \<Rightarrow>
                (case hash_partition s idx of
                   None \<Rightarrow> None
                 | Some part \<Rightarrow> Some (Hash_partition (unat idx), part))))"

definition store_partition ::
  "partition_ref \<Rightarrow> Partition \<Rightarrow> PartitionedHashJoinNode \<Rightarrow> PartitionedHashJoinNode" where
  "store_partition r part s =
     (case r of
        Input_partition \<Rightarrow> s\<lparr>input_partition := Some part\<rparr>
      | Hash_partition i \<Rightarrow> s\<lparr>hash_partitions := (hash_partitions s)[i := part]\<rparr>)"

text \<open>
  Lines 104-145: the end of the batch, or the next probe row and its partition.  \<open>None\<close> in
  the first component means that the loop goes on (\<^verbatim>\<open>continue\<close>, or the end of the body).
\<close>

definition next_probe_row ::
  "env \<Rightarrow> PartitionedHashJoinNode \<Rightarrow> loop_exit option \<times> PartitionedHashJoinNode" where
  "next_probe_row E s =
     (if probe_batch_pos s = num_rows (probe_batch s)
      then (Some goto_end, s\<lparr>current_probe_row := None\<rparr>)
      else
        (case GetRow (probe_batch s) (probe_batch_pos s) of
           None \<Rightarrow> (Some undefined_behaviour, s)
         | Some row \<Rightarrow>
             (let s1 = s\<lparr>current_probe_row := Some row,
                         probe_batch_pos := probe_batch_pos s + 1,
                         matched_probe := False\<rparr>
              in case EvalAndHashProbe E row of
                   None \<Rightarrow> (None, s1)
                 | Some hash \<Rightarrow>
                     (case probe_partition E s1 hash of
                        None \<Rightarrow> (Some undefined_behaviour, s1)
                      | Some (r, part) \<Rightarrow>
                          if is_closed part then (None, s1)
                          else if is_spilled part then
                            (case probe_rows part of
                               None \<Rightarrow> (Some undefined_behaviour, s1)
                             | Some stream \<Rightarrow>
                                 (case AppendRow E stream row s1 of
                                    (False, stream', s2) \<Rightarrow> (Some return_status, s2)
                                  | (True, stream', s2) \<Rightarrow>
                                      (None, store_partition r
                                         (part\<lparr>probe_rows := Some stream'\<rparr>) s2)))
                          else
                            (case hash_tbl part of
                               None \<Rightarrow> (Some undefined_behaviour, s1)
                             | Some table \<Rightarrow>
                                 (None, s1\<lparr>hash_tbl_iterator := Find E table row hash\<rparr>))))))"

text \<open>One turn of the loop of lines 51-146.\<close>

definition probe_iteration ::
  "env \<Rightarrow> TJoinOp \<Rightarrow> int \<Rightarrow> PartitionedHashJoinNode \<times> probe_locals \<Rightarrow>
   loop_exit option \<times> PartitionedHashJoinNode \<times> probe_locals" where
  "probe_iteration E JoinOp max_rows sl =
     (case current_row_phase E JoinOp max_rows sl of
        (True, s1, l1) \<Rightarrow> (Some goto_end, s1, l1)
      | (False, s1, l1) \<Rightarrow> (case next_probe_row E s1 of (x, s2) \<Rightarrow> (x, s2, l1)))"


lemma current_row_phase_frame:
  "current_row_phase E JoinOp max_rows sl = (g, s', l') \<Longrightarrow>
   probe_batch s' = probe_batch (fst sl) \<and> probe_batch_pos s' = probe_batch_pos (fst sl)"
  unfolding current_row_phase_def
  by (auto simp: Let_def split: option.splits prod.splits bool.splits if_splits
      dest: scan_matches_frame)

lemma store_partition_frame:
  "probe_batch (store_partition r part s) = probe_batch s"
  "probe_batch_pos (store_partition r part s) = probe_batch_pos s"
  by (auto simp: store_partition_def split: partition_ref.splits)

lemma next_probe_row_continue:
  "next_probe_row E s = (None, s') \<Longrightarrow>
   probe_batch s' = probe_batch s \<and> probe_batch_pos s' = probe_batch_pos s + 1 \<and>
   0 \<le> probe_batch_pos s \<and> probe_batch_pos s < num_rows (probe_batch s)"
  unfolding next_probe_row_def Let_def
  by (auto simp: GetRow_def store_partition_frame AppendRow_def
      split: option.splits prod.splits bool.splits if_splits)

lemma probe_iteration_continue:
  "probe_iteration E JoinOp max_rows sl = (None, s', l') \<Longrightarrow>
   probe_batch s' = probe_batch (fst sl) \<and>
   probe_batch_pos s' = probe_batch_pos (fst sl) + 1 \<and>
   probe_batch_pos (fst sl) < num_rows (probe_batch (fst sl))"
  unfolding probe_iteration_def
  by (auto split: prod.splits bool.splits
      dest!: current_row_phase_frame next_probe_row_continue)

text \<open>
  Lines 51-146: \<^verbatim>\<open>while (probe_batch_pos_ >= 0)\<close>.  Every turn that does not leave the loop
  takes one more row of the probe batch, so the loop ends.
\<close>

function probe_loop ::
  "env \<Rightarrow> TJoinOp \<Rightarrow> int \<Rightarrow> PartitionedHashJoinNode \<times> probe_locals \<Rightarrow>
   loop_exit \<times> PartitionedHashJoinNode \<times> probe_locals" where
  "probe_loop E JoinOp max_rows sl =
     (if probe_batch_pos (fst sl) \<ge> 0
      then (case probe_iteration E JoinOp max_rows sl of
              (Some x, sl1) \<Rightarrow> (x, sl1)
            | (None, sl1) \<Rightarrow> probe_loop E JoinOp max_rows sl1)
      else (goto_end, sl))"
  by pat_completeness auto
termination
proof (relation "measure (\<lambda>(E, JoinOp, max_rows, sl).
          nat (num_rows (probe_batch (fst sl)) - probe_batch_pos (fst sl)))")
  fix E JoinOp max_rows sl x sl1
  assume "0 \<le> probe_batch_pos (fst sl)"
    and "(x, sl1) = probe_iteration E JoinOp max_rows sl" "x = None"
  then have "probe_iteration E JoinOp max_rows sl = (None, fst sl1, snd sl1)"
    by (simp add: eq_commute)
  from probe_iteration_continue[OF this]
  show "((E, JoinOp, max_rows, sl1), E, JoinOp, max_rows, sl)
        \<in> measure (\<lambda>(E, JoinOp, max_rows, sl).
             nat (num_rows (probe_batch (fst sl)) - probe_batch_pos (fst sl)))"
    by simp
qed simp

declare probe_loop.simps [simp del]

text \<open>
  Lines 38-154.  \<open>None\<close> is a call that ran into undefined behaviour; otherwise the result
  is the returned status, the output batch and the node after the call.  Line 138 returns
  without reaching \<^verbatim>\<open>CommitRows\<close>: the output batch is as it was.
\<close>

definition ProcessProbeBatch ::
  "env \<Rightarrow> TJoinOp \<Rightarrow> out_row RowBatch \<Rightarrow> PartitionedHashJoinNode \<Rightarrow>
   (Status \<times> out_row RowBatch \<times> PartitionedHashJoinNode) option" where
  "ProcessProbeBatch E JoinOp out_batch s =
     (let max_rows = capacity out_batch - num_rows out_batch;
          l = \<lparr>num_rows_added = 0, row_slots = []\<rparr>
      in case probe_loop E JoinOp max_rows (s, l) of
           (goto_end, s1, l1) \<Rightarrow>
             Some (OK, CommitRows out_batch (num_rows_added l1) (row_slots l1),
                   s1\<lparr>num_rows_returned := num_rows_returned s1 + num_rows_added l1\<rparr>)
         | (return_status, s1, l1) \<Rightarrow> Some (status s1, out_batch, s1)
         | (undefined_behaviour, s1, l1) \<Rightarrow> None)"

text \<open>Lines 156-175: the dispatch on the join kind.\<close>

definition ProcessProbeBatch_join_op ::
  "env \<Rightarrow> TJoinOp \<Rightarrow> out_row RowBatch \<Rightarrow> PartitionedHashJoinNode \<Rightarrow>
   (Status \<times> out_row RowBatch \<times> PartitionedHashJoinNode) option" where
  "ProcessProbeBatch_join_op E join_op out_batch s =
     (case join_op of
        LEFT_ANTI_JOIN \<Rightarrow> ProcessProbeBatch E LEFT_ANTI_JOIN out_batch s
      | INNER_JOIN \<Rightarrow> ProcessProbeBatch E INNER_JOIN out_batch s
      | LEFT_OUTER_JOIN \<Rightarrow> ProcessProbeBatch E LEFT_OUTER_JOIN out_batch s
      | LEFT_SEMI_JOIN \<Rightarrow> ProcessProbeBatch E LEFT_SEMI_JOIN out_batch s
      | RIGHT_OUTER_JOIN \<Rightarrow> ProcessProbeBatch E RIGHT_OUTER_JOIN out_batch s
      | FULL_OUTER_JOIN \<Rightarrow> ProcessProbeBatch E FULL_OUTER_JOIN out_batch s
      | OTHER_JOIN_OP \<Rightarrow> Some (Error ''Unknown join type'', out_batch, s))"

section \<open>\<^verbatim>\<open>ProcessBuildBatch\<close>\<close>

text \<open>
  Lines 179-185, the body of the loop for one build row: \<open>Inr\<close> is the node after the
  row, \<open>Inl\<close> the way the function is left (\<open>None\<close> for undefined behaviour, \<open>Some\<close> for
  \<^verbatim>\<open>return status_\<close>, with the node at that point).
\<close>

definition build_row_step ::
  "env \<Rightarrow> tuple_row \<Rightarrow> PartitionedHashJoinNode \<Rightarrow>
   (Status \<times> PartitionedHashJoinNode) option + PartitionedHashJoinNode" where
  "build_row_step E build_row s =
     (case EvalAndHashBuild E build_row of
        None \<Rightarrow> Inr s
      | Some hash \<Rightarrow>
          (case partition_idx E hash of
             None \<Rightarrow> Inl None
           | Some idx \<Rightarrow>
               (case hash_partition s idx of
                  None \<Rightarrow> Inl None
                | Some part \<Rightarrow>
                    (case build_rows part of
                       None \<Rightarrow> Inl None
                     | Some stream \<Rightarrow>
                         (case AppendRow E stream build_row s of
                            (False, stream', s1) \<Rightarrow> Inl (Some (status s1, s1))
                          | (True, stream', s1) \<Rightarrow>
                              Inr (store_partition (Hash_partition (unat idx))
                                     (part\<lparr>build_rows := Some stream'\<rparr>) s1))))))"

text \<open>Lines 178-187: the loop over the rows of the build batch, in their order.\<close>

fun build_loop ::
  "env \<Rightarrow> tuple_row list \<Rightarrow> PartitionedHashJoinNode \<Rightarrow>
   (Status \<times> PartitionedHashJoinNode) option" where
  "build_loop E [] s = Some (OK, s)"
| "build_loop E (build_row # rows) s =
     (case build_row_step E build_row s of
        Inl r \<Rightarrow> r
      | Inr s1 \<Rightarrow> build_loop E rows s1)"

definition ProcessBuildBatch ::
  "env \<Rightarrow> tuple_row RowBatch \<Rightarrow> PartitionedHashJoinNode \<Rightarrow>
   (Status \<times> PartitionedHashJoinNode) option" where
  "ProcessBuildBatch E build_batch s = build_loop E (tuple_rows build_batch) s"


section \<open>Notions used in the statements\<close>

text \<open>The state after \<open>n\<close> turns of the loop that did not leave it.\<close>

fun probe_turns ::
  "env \<Rightarrow> TJoinOp \<Rightarrow> int \<Rightarrow> nat \<Rightarrow> PartitionedHashJoinNode \<times> probe_locals \<Rightarrow>
   (PartitionedHashJoinNode \<times> probe_locals) option" where
  "probe_turns E JoinOp max_rows 0 sl = Some sl"
| "probe_turns E JoinOp max_rows (Suc n) sl =
     (if probe_batch_pos (fst sl) \<ge> 0
      then (case probe_iteration E JoinOp max_rows sl of
              (Some x, sl1) \<Rightarrow> None
            | (None, sl1) \<Rightarrow> probe_turns E JoinOp max_rows n sl1)
      else None)"

text \<open>The rows added since the locals \<open>l0\<close>: the slots and the counter grow together.\<close>

definition added_since :: "probe_locals \<Rightarrow> probe_locals \<Rightarrow> bool" where
  "added_since l0 l \<longleftrightarrow>
     (\<exists>new. row_slots l = row_slots l0 @ new \<and>
            num_rows_added l = num_rows_added l0 + int (length new))"

text \<open>
  The candidate build row \<open>c\<close> passes the join conjuncts against the probe row \<open>p\<close>
  (lines 56-58).
\<close>

definition join_match :: "env \<Rightarrow> tuple_row \<Rightarrow> tuple_row \<Rightarrow> bool" where
  "join_match E p c =
     EvalOtherJoinConjuncts (other_join_conjunct_ctxs E) (CreateOutputRow p (Some c))"

text \<open>The kinds of join for which line 88 lets an unmatched probe row out.\<close>

definition emits_unmatched :: "TJoinOp \<Rightarrow> bool" where
  "emits_unmatched JoinOp \<longleftrightarrow>
     JoinOp = LEFT_ANTI_JOIN \<or> JoinOp = LEFT_OUTER_JOIN \<or> JoinOp = FULL_OUTER_JOIN"

text \<open>The locals after one more row: lines 82-83 and 95-96.\<close>

definition add_row :: "out_row \<Rightarrow> probe_locals \<Rightarrow> probe_locals" where
  "add_row r l = l\<lparr>num_rows_added := num_rows_added l + 1, row_slots := row_slots l @ [r]\<rparr>"

text \<open>
  An invariant of the loops of \<^verbatim>\<open>ProcessProbeBatch\<close>, for a set \<open>A\<close> of probe rows, a set \<open>M\<close>
  of build rows and a property \<open>Pr\<close> of output rows: the current probe row and the rows
  of the probe batch are in \<open>A\<close>; every row written satisfies \<open>Pr\<close>; the build rows of
  \<open>M\<close> are marked as matched, and every other marked build row passes the join conjuncts
  against a probe row of \<open>A\<close>.
\<close>

definition probe_inv ::
  "env \<Rightarrow> tuple_row set \<Rightarrow> tuple_row set \<Rightarrow> (out_row \<Rightarrow> bool) \<Rightarrow>
   PartitionedHashJoinNode \<times> probe_locals \<Rightarrow> bool" where
  "probe_inv E A M Pr sl \<longleftrightarrow>
     (\<forall>p. current_probe_row (fst sl) = Some p \<longrightarrow> p \<in> A) \<and>
     set (tuple_rows (probe_batch (fst sl))) \<subseteq> A \<and>
     (\<forall>r \<in> set (row_slots (snd sl)). Pr r) \<and>
     M \<subseteq> ht_matched (fst sl) \<and>
     (\<forall>c \<in> ht_matched (fst sl) - M. \<exists>p \<in> A. join_match E p c)"

text \<open>The locals of a call, had the rows \<open>pre\<close> been written before them.\<close>

definition prepend_rows :: "out_row list \<Rightarrow> probe_locals \<Rightarrow> probe_locals" where
  "prepend_rows pre l =
     l\<lparr>num_rows_added := int (length pre) + num_rows_added l, row_slots := pre @ row_slots l\<rparr>"

text \<open>
  The probe input of a call is exhausted: there is no probe batch
  (\<^verbatim>\<open>probe_batch_pos_ < 0\<close>), or line 108 has cleared the current probe row.
\<close>

definition probe_exhausted :: "PartitionedHashJoinNode \<Rightarrow> bool" where
  "probe_exhausted s \<longleftrightarrow> probe_batch_pos s < 0 \<or> current_probe_row s = None"

text \<open>
  The caller that hands \<^verbatim>\<open>ProcessProbeBatch\<close> a fresh output batch of capacity 1 again and
  again, until a call fails or leaves the probe input exhausted, and collects the rows of
  the batches in the order of the calls.  The number bounds the calls: \<open>None\<close> when it does
  not suffice (or when a call ran into undefined behaviour).
\<close>

fun probe_row_by_row ::
  "env \<Rightarrow> TJoinOp \<Rightarrow> nat \<Rightarrow> PartitionedHashJoinNode \<Rightarrow>
   (Status \<times> out_row list \<times> PartitionedHashJoinNode) option" where
  "probe_row_by_row E JoinOp 0 s = None"
| "probe_row_by_row E JoinOp (Suc n) s =
     (case ProcessProbeBatch E JoinOp \<lparr>capacity = 1, tuple_rows = []\<rparr> s of
        None \<Rightarrow> None
      | Some (st, out_batch, s1) \<Rightarrow>
          if st \<noteq> OK then Some (st, tuple_rows out_batch, s1)
          else if probe_exhausted s1 then Some (OK, tuple_rows out_batch, s1)
          else (case probe_row_by_row E JoinOp n s1 of
                  None \<Rightarrow> None
                | Some (st', rows, s2) \<Rightarrow> Some (st', tuple_rows out_batch @ rows, s2)))"

text \<open>
  For the count of the rows of a left-semi join: 1 when a probe row is under way with
  candidates left in the match iterator, 0 otherwise; and the quantity that no turn of
  the loops increases.
\<close>

definition row_under_way :: "PartitionedHashJoinNode \<Rightarrow> int" where
  "row_under_way s =
     (if current_probe_row s \<noteq> None \<and> hash_tbl_iterator s \<noteq> [] then 1 else 0)"

definition semi_count :: "PartitionedHashJoinNode \<times> probe_locals \<Rightarrow> int \<Rightarrow> bool" where
  "semi_count sl K \<longleftrightarrow>
     num_rows_added (snd sl) = int (length (row_slots (snd sl))) \<and>
     num_rows_added (snd sl) + row_under_way (fst sl) - probe_batch_pos (fst sl) \<le> K"

text \<open>
  Following the spec (4.2), not the code: "\<^verbatim>\<open>route(hash) -> partitionIndex\<close> = the top
  \<^verbatim>\<open>NUM_PARTITIONING_BITS\<close> bits of the hash, right-shifted:
  \<^verbatim>\<open>hash >> (32 - NUM_PARTITIONING_BITS)\<close>".
\<close>

definition route :: "env \<Rightarrow> 32 word \<Rightarrow> nat" where
  "route E hash = unat (drop_bit (nat (32 - NUM_PARTITIONING_BITS E)) hash)"

text \<open>
  Following the spec (4.4, step 3), not the code: the candidates that the lookup of a probe
  row \<open>p\<close> yields.  A row without a hash has none.  Otherwise its partition is the input
  partition when that has a hash table, and else the partition of \<open>hash_partitions\<close> at
  the index \<open>route\<close> of its hash; a closed or a spilled partition yields no candidate, a
  resident one those that \<open>Find\<close> gives in its hash table.
\<close>

definition spec_candidates ::
  "env \<Rightarrow> PartitionedHashJoinNode \<Rightarrow> tuple_row \<Rightarrow> tuple_row list" where
  "spec_candidates E s p =
     (case EvalAndHashProbe E p of
        None \<Rightarrow> []
      | Some hash \<Rightarrow>
          (let part = (if input_partition s \<noteq> None \<and> hash_tbl (the (input_partition s)) \<noteq> None
                       then the (input_partition s)
                       else hash_partitions s ! route E hash)
           in if is_closed part \<or> is_spilled part then []
              else (case hash_tbl part of
                      None \<Rightarrow> []
                    | Some table \<Rightarrow> Find E table p hash)))"

text \<open>
  Following the spec (4.4, steps 1 and 2), not the code: the output rows of the probe row
  \<open>p\<close> with the candidates \<open>cands\<close> ahead of it and no bound on the output; \<open>matched\<close>
  tells whether the row counts as matched already.  The candidates that pass the join
  conjuncts are paired with the row: none of them for a left-anti join, the first one for
  a left-semi join, all of them otherwise; the pairs that pass the conjuncts of the node
  are the output.  For the anti, left-outer and full-outer joins, a row that is not
  matched and has no passing candidate is paired with \<^verbatim>\<open>NULL\<close>, and that row is output when
  it passes the conjuncts of the node.
\<close>

definition spec_row_output ::
  "env \<Rightarrow> TJoinOp \<Rightarrow> tuple_row \<Rightarrow> tuple_row list \<Rightarrow> bool \<Rightarrow> out_row list" where
  "spec_row_output E JoinOp p cands matched =
     (let passing = filter (join_match E p) cands;
          paired = (if JoinOp = LEFT_ANTI_JOIN then []
                    else if JoinOp = LEFT_SEMI_JOIN then take 1 passing
                    else passing)
      in filter (EvalConjuncts (conjunct_ctxs E)) (map (\<lambda>c. CreateOutputRow p (Some c)) paired) @
         (if emits_unmatched JoinOp \<and> \<not> matched \<and> passing = [] \<and>
             EvalConjuncts (conjunct_ctxs E) (CreateOutputRow p None)
          then [CreateOutputRow p None] else []))"

text \<open>The rows of the probe batch that the node has yet to take.\<close>

definition remaining_rows :: "PartitionedHashJoinNode \<Rightarrow> tuple_row list" where
  "remaining_rows s = drop (nat (probe_batch_pos s)) (tuple_rows (probe_batch s))"

text \<open>
  The output that is still to come from a node: nothing when there is no probe batch
  (\<^verbatim>\<open>probe_batch_pos_ < 0\<close>); otherwise the rest of the output of the current probe row,
  from the candidates left in the match iterator, and then the output of each remaining
  row of the probe batch, in the order of the batch.
\<close>

definition spec_output :: "env \<Rightarrow> TJoinOp \<Rightarrow> PartitionedHashJoinNode \<Rightarrow> out_row list" where
  "spec_output E JoinOp s =
     (if probe_batch_pos s < 0 then []
      else (case current_probe_row s of
              None \<Rightarrow> []
            | Some p \<Rightarrow> spec_row_output E JoinOp p (hash_tbl_iterator s) (matched_probe s)) @
           concat (map (\<lambda>p. spec_row_output E JoinOp p (spec_candidates E s p) False)
                     (remaining_rows s)))"

text \<open>
  The build rows that are to be flagged once the node has gone through its probe batch
  under a right-outer or a full-outer join: those flagged already, the candidates left in
  the match iterator that pass the join conjuncts against the current probe row, and the
  candidates of the remaining probe rows that pass them against their row.
\<close>

definition spec_matched :: "env \<Rightarrow> TJoinOp \<Rightarrow> PartitionedHashJoinNode \<Rightarrow> tuple_row set" where
  "spec_matched E JoinOp s =
     ht_matched s \<union>
     (if (JoinOp = RIGHT_OUTER_JOIN \<or> JoinOp = FULL_OUTER_JOIN) \<and> 0 \<le> probe_batch_pos s
      then (case current_probe_row s of
              None \<Rightarrow> {}
            | Some p \<Rightarrow> {c \<in> set (hash_tbl_iterator s). join_match E p c}) \<union>
           (\<Union>p \<in> set (remaining_rows s). {c \<in> set (spec_candidates E s p). join_match E p c})
      else {})"

text \<open>
  The invariant of the loop over the match iterator for the probe row \<open>p\<close>: the rows
  written and the output still to come of the row make up \<open>outp\<close>, the build rows flagged
  and those still to be flagged make up \<open>em\<close>, and the probe input is that of \<open>s0\<close>.
\<close>

definition row_inv ::
  "env \<Rightarrow> TJoinOp \<Rightarrow> tuple_row \<Rightarrow> PartitionedHashJoinNode \<Rightarrow> out_row list \<Rightarrow> tuple_row set \<Rightarrow>
   PartitionedHashJoinNode \<times> probe_locals \<Rightarrow> bool" where
  "row_inv E JoinOp p s0 outp em sl \<longleftrightarrow>
     current_probe_row (fst sl) = Some p \<and>
     probe_batch (fst sl) = probe_batch s0 \<and>
     probe_batch_pos (fst sl) = probe_batch_pos s0 \<and>
     input_partition (fst sl) = input_partition s0 \<and>
     hash_partitions (fst sl) = hash_partitions s0 \<and>
     num_rows_added (snd sl) = int (length (row_slots (snd sl))) \<and>
     row_slots (snd sl) @
       spec_row_output E JoinOp p (hash_tbl_iterator (fst sl)) (matched_probe (fst sl)) = outp \<and>
     ht_matched (fst sl) \<union>
       (if JoinOp = RIGHT_OUTER_JOIN \<or> JoinOp = FULL_OUTER_JOIN
        then {c \<in> set (hash_tbl_iterator (fst sl)). join_match E p c} else {}) = em"

text \<open>The invariant of the loop of lines 51-146, in the same way.\<close>

definition call_inv ::
  "env \<Rightarrow> TJoinOp \<Rightarrow> out_row list \<Rightarrow> tuple_row set \<Rightarrow>
   PartitionedHashJoinNode \<times> probe_locals \<Rightarrow> bool" where
  "call_inv E JoinOp outp em sl \<longleftrightarrow>
     num_rows_added (snd sl) = int (length (row_slots (snd sl))) \<and>
     row_slots (snd sl) @ spec_output E JoinOp (fst sl) = outp \<and>
     spec_matched E JoinOp (fst sl) = em \<and>
     (current_probe_row (fst sl) = None \<longrightarrow> hash_tbl_iterator (fst sl) = [])"

text \<open>
  Following the spec (4.3 and 4.4, step 3), not the code: the rows of \<open>rows\<close> that have a
  hash and that \<open>route\<close> sends to the partition \<open>i\<close>, in their order; \<open>hash_of\<close> is
  \<open>EvalAndHashBuild E\<close> or \<open>EvalAndHashProbe E\<close>.
\<close>

definition spec_routed_rows ::
  "env \<Rightarrow> (tuple_row \<Rightarrow> 32 word option) \<Rightarrow> nat \<Rightarrow> tuple_row list \<Rightarrow> tuple_row list" where
  "spec_routed_rows E hash_of i rows = filter (\<lambda>row. map_option (route E) (hash_of row) = Some i) rows"





section \<open>A small join to run the functions on\<close>

text \<open>
  Four partitions (two bits): two resident ones with the hash tables 0 and 1, a spilled one
  and a closed one.  The hash of row \<open>r > 0\<close> is \<open>r\<close> in the top two bits, so row \<open>r\<close>
  goes to partition \<open>r mod 4\<close>; row 0 has no hash.  Table 1 holds the candidates 11, 12 and
  13 for probe row 1; the join conjunct rejects the candidate 12.
\<close>

definition example_env :: env where
  "example_env =
     \<lparr>NUM_PARTITIONING_BITS = 2,
      EvalAndHashProbe = (\<lambda>row. if row = 0 then None else Some (push_bit 30 (word_of_nat row))),
      EvalAndHashBuild = (\<lambda>row. if row = 0 then None else Some (push_bit 30 (word_of_nat row))),
      Find = (\<lambda>table row hash. if table = 1 \<and> row = 1 then [11, 12, 13] else []),
      other_join_conjunct_ctxs = [\<lambda>out_row. snd out_row \<noteq> Some 12],
      conjunct_ctxs = [],
      stream_failure = (\<lambda>stream row. None)\<rparr>"

definition resident_partition :: "nat \<Rightarrow> Partition" where
  "resident_partition table =
     \<lparr>is_closed = False, is_spilled = False, hash_tbl = Some table,
      build_rows = Some [], probe_rows = None\<rparr>"

definition spilled_partition :: Partition where
  "spilled_partition =
     \<lparr>is_closed = False, is_spilled = True, hash_tbl = None,
      build_rows = Some [], probe_rows = Some []\<rparr>"

definition closed_partition :: Partition where
  "closed_partition =
     \<lparr>is_closed = True, is_spilled = False, hash_tbl = None,
      build_rows = None, probe_rows = None\<rparr>"

definition example_node :: "tuple_row list \<Rightarrow> PartitionedHashJoinNode" where
  "example_node probe_rows_in =
     \<lparr>probe_batch = \<lparr>capacity = 8, tuple_rows = probe_rows_in\<rparr>,
      probe_batch_pos = 0,
      current_probe_row = None,
      hash_tbl_iterator = [],
      matched_probe = False,
      input_partition = None,
      hash_partitions = [resident_partition 0, resident_partition 1, spilled_partition, closed_partition],
      status = OK,
      num_rows_returned = 0,
      ht_matched = {}\<rparr>"

definition failing_env :: env where
  "failing_env = example_env\<lparr>stream_failure := (\<lambda>stream row. Some ''spill write failed'')\<rparr>"


text \<open>The definitions to unfold when a call is run on the small join.\<close>

lemmas run_simps =
  example_env_def failing_env_def example_node_def resident_partition_def
  spilled_partition_def closed_partition_def
  ProcessProbeBatch_def probe_loop.simps probe_iteration_def current_row_phase_def
  scan_matches.simps match_step_def next_probe_row_def probe_partition_def
  partition_idx_def hash_partition_def store_partition_def AppendRow_def
  EvalConjuncts_def EvalOtherJoinConjuncts_def CreateOutputRow_def
  GetRow_def num_rows_def CommitRows_def AtCapacity_def
  ProcessBuildBatch_def build_row_step_def Let_def

section \<open>The loops\<close>

lemma probe_loop_stop:
  "probe_batch_pos (fst sl) < 0 \<Longrightarrow> probe_loop E JoinOp max_rows sl = (goto_end, sl)"
  by (simp add: probe_loop.simps)

lemma probe_loop_step:
  "0 \<le> probe_batch_pos (fst sl) \<Longrightarrow>
   probe_loop E JoinOp max_rows sl =
     (case probe_iteration E JoinOp max_rows sl of
        (Some x, sl1) \<Rightarrow> (x, sl1)
      | (None, sl1) \<Rightarrow> probe_loop E JoinOp max_rows sl1)"
  by (simp add: probe_loop.simps[of _ _ _ sl])

lemma probe_induct [case_names Stop Step]:
  assumes "\<And>sl. probe_batch_pos (fst sl) < 0 \<Longrightarrow> P sl"
    and "\<And>sl x sl1. 0 \<le> probe_batch_pos (fst sl) \<Longrightarrow>
           probe_iteration E JoinOp max_rows sl = (x, sl1) \<Longrightarrow>
           (x = None \<Longrightarrow> P sl1) \<Longrightarrow> P sl"
  shows "P sl"
proof (induction "nat (num_rows (probe_batch (fst sl)) - probe_batch_pos (fst sl))"
    arbitrary: sl rule: less_induct)
  case less
  show ?case
  proof (cases "probe_batch_pos (fst sl) < 0")
    case True
    then show ?thesis by (rule assms(1))
  next
    case False
    obtain x sl1 where it: "probe_iteration E JoinOp max_rows sl = (x, sl1)"
      by (cases "probe_iteration E JoinOp max_rows sl")
    have "P sl1" if "x = None"
    proof -
      from it that have "probe_iteration E JoinOp max_rows sl = (None, fst sl1, snd sl1)"
        by simp
      from probe_iteration_continue[OF this]
      have "nat (num_rows (probe_batch (fst sl1)) - probe_batch_pos (fst sl1))
            < nat (num_rows (probe_batch (fst sl)) - probe_batch_pos (fst sl))"
        by simp
      then show ?thesis by (rule less)
    qed
    with False it show ?thesis by (intro assms(2)[of sl x sl1]) auto
  qed
qed

lemma probe_loop_turns:
  "probe_turns E JoinOp max_rows n sl = Some sl' \<Longrightarrow>
   probe_loop E JoinOp max_rows sl = probe_loop E JoinOp max_rows sl'"
proof (induction n arbitrary: sl)
  case 0
  then show ?case by simp
next
  case (Suc n)
  then show ?case
    by (auto simp: probe_loop_step split: if_splits prod.splits option.splits)
qed

text \<open>Rules for the two loops: an invariant of their turns, and what holds at each exit.\<close>

lemma scan_matches_rule:
  assumes "Q sl"
    and "\<And>sl. Q sl \<Longrightarrow> hash_tbl_iterator (fst sl) = [] \<Longrightarrow> R (False, sl)"
    and "\<And>sl b rest x sl1. Q sl \<Longrightarrow> hash_tbl_iterator (fst sl) = b # rest \<Longrightarrow>
           match_step E JoinOp max_rows p b rest sl = (x, sl1) \<Longrightarrow>
           (case x of None \<Rightarrow> Q sl1 | Some g \<Rightarrow> R (g, sl1))"
  shows "R (scan_matches E JoinOp max_rows p sl)"
  using assms(1)
proof (induction sl rule: scan_induct[where E=E and JoinOp=JoinOp and max_rows=max_rows and p=p])
  case (Nil sl)
  then show ?case by (simp add: scan_matches_Nil assms(2))
next
  case (Cons sl b rest x sl1)
  from assms(3)[OF Cons.prems Cons.hyps(1,2)] Cons show ?case
    by (cases x) (simp_all add: scan_matches_Cons)
qed

lemma probe_loop_rule:
  assumes "Q sl"
    and "\<And>sl. Q sl \<Longrightarrow> probe_batch_pos (fst sl) < 0 \<Longrightarrow> R (goto_end, sl)"
    and "\<And>sl x sl1. Q sl \<Longrightarrow> 0 \<le> probe_batch_pos (fst sl) \<Longrightarrow>
           probe_iteration E JoinOp max_rows sl = (x, sl1) \<Longrightarrow>
           (case x of None \<Rightarrow> Q sl1 | Some e \<Rightarrow> R (e, sl1))"
  shows "R (probe_loop E JoinOp max_rows sl)"
  using assms(1)
proof (induction sl rule: probe_induct[where E=E and JoinOp=JoinOp and max_rows=max_rows])
  case (Stop sl)
  then show ?case by (simp add: probe_loop_stop assms(2))
next
  case (Step sl x sl1)
  from assms(3)[OF Step.prems Step.hyps(1,2)] Step show ?case
    by (cases x) (simp_all add: probe_loop_step)
qed

section \<open>Partition routing\<close>







section \<open>Failing appends\<close>

lemma build_row_step_error:
  "build_row_step E row s = Inl (Some (st, s')) \<Longrightarrow> \<exists>msg. st = Error msg \<and> status s' = st"
  by (auto simp: build_row_step_def AppendRow_def split: option.splits prod.splits bool.splits)

lemma build_loop_prefix:
  "build_loop E pre s = Some (OK, s1) \<Longrightarrow> build_loop E (pre @ rows) s = build_loop E rows s1"
proof (induction pre arbitrary: s)
  case Nil
  then show ?case by simp
next
  case (Cons row pre)
  show ?case
  proof (cases "build_row_step E row s")
    case (Inl r)
    with Cons.prems have "r = Some (OK, s1)" by simp
    with Inl build_row_step_error[of E row s OK s1] show ?thesis by simp
  next
    case (Inr s2)
    with Cons show ?thesis by simp
  qed
qed

lemma build_row_step_fails:
  assumes "EvalAndHashBuild E row = Some hash" "partition_idx E hash = Some idx"
    "hash_partition s idx = Some part" "build_rows part = Some stream"
    "stream_failure E stream row = Some msg"
  shows "build_row_step E row s = Inl (Some (Error msg, s\<lparr>status := Error msg\<rparr>))"
  using assms by (simp add: build_row_step_def AppendRow_def)

lemma hash_partition_frame:
  "hash_partitions s' = hash_partitions s \<Longrightarrow> hash_partition s' = hash_partition s"
  by (simp add: hash_partition_def fun_eq_iff)

lemma probe_partition_frame:
  "input_partition s' = input_partition s \<Longrightarrow> hash_partitions s' = hash_partitions s \<Longrightarrow>
   probe_partition E s' hash = probe_partition E s hash"
  using hash_partition_frame[of s' s] by (simp add: probe_partition_def cong: option.case_cong)

lemma next_probe_row_fails:
  assumes "probe_batch_pos s \<noteq> num_rows (probe_batch s)"
    "GetRow (probe_batch s) (probe_batch_pos s) = Some row"
    "EvalAndHashProbe E row = Some hash" "probe_partition E s hash = Some (r, part)"
    "\<not> is_closed part" "is_spilled part" "probe_rows part = Some stream"
    "stream_failure E stream row = Some msg"
  shows "next_probe_row E s =
     (Some return_status,
      s\<lparr>current_probe_row := Some row, probe_batch_pos := probe_batch_pos s + 1,
        matched_probe := False, status := Error msg\<rparr>)"
proof -
  have pp: "probe_partition E
          (s\<lparr>current_probe_row := Some row, probe_batch_pos := probe_batch_pos s + 1,
             matched_probe := False\<rparr>) hash = Some (r, part)"
    by (subst probe_partition_frame[where s=s]) (simp_all add: assms(4))
  show ?thesis
    unfolding next_probe_row_def Let_def
    by (simp add: assms(1,2,3,5,6,7,8) pp AppendRow_def)
qed

lemma next_probe_row_return:
  "next_probe_row E s = (Some return_status, s') \<Longrightarrow> \<exists>msg. status s' = Error msg"
  unfolding next_probe_row_def Let_def
  by (auto simp: AppendRow_def split: option.splits prod.splits bool.splits if_splits)

lemma probe_loop_return:
  "probe_loop E JoinOp max_rows sl = (return_status, s', l') \<Longrightarrow> \<exists>msg. status s' = Error msg"
proof (induction sl rule: probe_induct[where E=E and JoinOp=JoinOp and max_rows=max_rows])
  case (Stop sl)
  then show ?case by (simp add: probe_loop_stop)
next
  case (Step sl x sl1)
  show ?case
  proof (cases x)
    case None
    with Step show ?thesis by (simp add: probe_loop_step)
  next
    case (Some e)
    with Step have e: "e = return_status" "sl1 = (s', l')" by (auto simp: probe_loop_step)
    with Step.hyps(2) Some show ?thesis
      by (auto simp: probe_iteration_def split: prod.splits bool.splits dest: next_probe_row_return)
  qed
qed

lemma ProcessProbeBatch_error:
  assumes "ProcessProbeBatch E JoinOp out_batch s = Some (st, out_batch', s')" "st \<noteq> OK"
  shows "out_batch' = out_batch \<and> status s' = st \<and> (\<exists>msg. st = Error msg)"
  using assms
  by (auto simp: ProcessProbeBatch_def Let_def split: prod.splits loop_exit.splits
      dest: probe_loop_return)


text \<open>
  C9.  (1) When the rows \<open>pre\<close> of a build batch have been appended and the append of the
  next row fails, \<^verbatim>\<open>ProcessBuildBatch\<close> returns the stored error; the node is as it was
  before that row but for \<open>status\<close>, whatever rows follow.  (2) When, after \<open>n\<close> turns of
  the loop of \<^verbatim>\<open>ProcessProbeBatch\<close> and the matches of the current row, the next probe row
  belongs to a spilled partition and its append fails, the call returns the stored error
  and the output batch is the one it was given: the rows \<open>row_slots l2\<close> written so far
  are not committed.  (3) Whenever \<^verbatim>\<open>ProcessProbeBatch\<close> returns a status other than
  \<open>OK\<close>, the output batch is unchanged and the status is the stored one.
\<close>

theorem append_failure_aborts:
  "(build_loop E pre s = Some (OK, s1) \<and> EvalAndHashBuild E row = Some hash \<and>
    partition_idx E hash = Some idx \<and> hash_partition s1 idx = Some part \<and>
    build_rows part = Some stream \<and> stream_failure E stream row = Some msg \<longrightarrow>
      ProcessBuildBatch E \<lparr>capacity = c, tuple_rows = pre @ row # post\<rparr> s =
        Some (Error msg, s1\<lparr>status := Error msg\<rparr>)) \<and>
   (probe_turns E JoinOp (capacity out_batch - num_rows out_batch) n
      (t, \<lparr>num_rows_added = 0, row_slots = []\<rparr>) = Some (t1, l1) \<and>
    0 \<le> probe_batch_pos t1 \<and>
    current_row_phase E JoinOp (capacity out_batch - num_rows out_batch) (t1, l1) =
      (False, t2, l2) \<and>
    probe_batch_pos t2 \<noteq> num_rows (probe_batch t2) \<and>
    GetRow (probe_batch t2) (probe_batch_pos t2) = Some prow \<and>
    EvalAndHashProbe E prow = Some phash \<and>
    probe_partition E t2 phash = Some (r, ppart) \<and>
    \<not> is_closed ppart \<and> is_spilled ppart \<and> probe_rows ppart = Some pstream \<and>
    stream_failure E pstream prow = Some pmsg \<longrightarrow>
      ProcessProbeBatch E JoinOp out_batch t =
        Some (Error pmsg, out_batch,
              t2\<lparr>current_probe_row := Some prow, probe_batch_pos := probe_batch_pos t2 + 1,
                 matched_probe := False, status := Error pmsg\<rparr>)) \<and>
   (ProcessProbeBatch E JoinOp out_batch u = Some (st, out_batch', u') \<and> st \<noteq> OK \<longrightarrow>
      out_batch' = out_batch \<and> status u' = st)"
proof (intro conjI impI)
  assume a: "build_loop E pre s = Some (OK, s1) \<and> EvalAndHashBuild E row = Some hash \<and>
    partition_idx E hash = Some idx \<and> hash_partition s1 idx = Some part \<and>
    build_rows part = Some stream \<and> stream_failure E stream row = Some msg"
  then have "build_row_step E row s1 = Inl (Some (Error msg, s1\<lparr>status := Error msg\<rparr>))"
    by (intro build_row_step_fails[of E row hash idx s1 part stream msg]) simp_all
  with a show "ProcessBuildBatch E \<lparr>capacity = c, tuple_rows = pre @ row # post\<rparr> s =
        Some (Error msg, s1\<lparr>status := Error msg\<rparr>)"
    by (simp add: ProcessBuildBatch_def build_loop_prefix)
next
  let ?m = "capacity out_batch - num_rows out_batch"
  assume a: "probe_turns E JoinOp ?m n (t, \<lparr>num_rows_added = 0, row_slots = []\<rparr>) = Some (t1, l1) \<and>
    0 \<le> probe_batch_pos t1 \<and>
    current_row_phase E JoinOp ?m (t1, l1) = (False, t2, l2) \<and>
    probe_batch_pos t2 \<noteq> num_rows (probe_batch t2) \<and>
    GetRow (probe_batch t2) (probe_batch_pos t2) = Some prow \<and>
    EvalAndHashProbe E prow = Some phash \<and>
    probe_partition E t2 phash = Some (r, ppart) \<and>
    \<not> is_closed ppart \<and> is_spilled ppart \<and> probe_rows ppart = Some pstream \<and>
    stream_failure E pstream prow = Some pmsg"
  let ?t3 = "t2\<lparr>current_probe_row := Some prow, probe_batch_pos := probe_batch_pos t2 + 1,
                 matched_probe := False, status := Error pmsg\<rparr>"
  from a have "next_probe_row E t2 = (Some return_status, ?t3)"
    by (intro next_probe_row_fails[of t2 prow E phash r ppart pstream pmsg]) simp_all
  with a have "probe_iteration E JoinOp ?m (t1, l1) = (Some return_status, ?t3, l2)"
    by (simp add: probe_iteration_def)
  with a have "probe_loop E JoinOp ?m (t1, l1) = (return_status, ?t3, l2)"
    by (simp add: probe_loop_step)
  moreover from a have "probe_loop E JoinOp ?m (t, \<lparr>num_rows_added = 0, row_slots = []\<rparr>) =
      probe_loop E JoinOp ?m (t1, l1)"
    by (intro probe_loop_turns[of E JoinOp ?m n]) simp
  ultimately show "ProcessProbeBatch E JoinOp out_batch t = Some (Error pmsg, out_batch, ?t3)"
    by (simp add: ProcessProbeBatch_def Let_def)
next
  assume "ProcessProbeBatch E JoinOp out_batch u = Some (st, out_batch', u') \<and> st \<noteq> OK"
  then show "out_batch' = out_batch" "status u' = st"
    using ProcessProbeBatch_error[of E JoinOp out_batch u st out_batch' u'] by simp_all
qed

theorem append_failure_aborts_witness:
  "build_loop failing_env [0] (example_node []) = Some (OK, example_node []) \<and>
   EvalAndHashBuild failing_env 2 = Some 0x80000000 \<and>
   stream_failure failing_env [] 2 = Some ''spill write failed'' \<and>
   ProcessBuildBatch failing_env \<lparr>capacity = 8, tuple_rows = [0, 2, 1]\<rparr> (example_node []) =
     Some (Error ''spill write failed'', (example_node [])\<lparr>status := Error ''spill write failed''\<rparr>) \<and>
   current_row_phase failing_env INNER_JOIN 8
      ((example_node [1, 2])\<lparr>current_probe_row := Some 1, probe_batch_pos := 1,
            hash_tbl_iterator := [11, 12, 13]\<rparr>, \<lparr>num_rows_added = 0, row_slots = []\<rparr>) =
    (False,
     (example_node [1, 2])\<lparr>current_probe_row := Some 1, probe_batch_pos := 1,
            hash_tbl_iterator := [], matched_probe := True\<rparr>,
     \<lparr>num_rows_added = 2, row_slots = [(1, Some 11), (1, Some 13)]\<rparr>) \<and>
   ProcessProbeBatch failing_env INNER_JOIN \<lparr>capacity = 8, tuple_rows = []\<rparr> (example_node [1, 2]) =
     Some (Error ''spill write failed'', \<lparr>capacity = 8, tuple_rows = []\<rparr>,
           (example_node [1, 2])\<lparr>current_probe_row := Some 2, probe_batch_pos := 2,
              hash_tbl_iterator := [], matched_probe := False,
              status := Error ''spill write failed''\<rparr>) \<and>
   Error ''spill write failed'' \<noteq> OK"
  using append_failure_aborts[where E=failing_env and pre="[0]" and s="example_node []"
      and ?s1.0="example_node []" and row=2 and hash="0x80000000" and idx=2
      and part=spilled_partition and stream="[]" and msg="''spill write failed''"
      and c=8 and post="[1]" and JoinOp=INNER_JOIN
      and out_batch="\<lparr>capacity = 8, tuple_rows = []\<rparr>" and n=1
      and t="example_node [1, 2]"
      and ?t1.0="(example_node [1, 2])\<lparr>current_probe_row := Some 1, probe_batch_pos := 1,
            hash_tbl_iterator := [11, 12, 13]\<rparr>"
      and ?l1.0="\<lparr>num_rows_added = 0, row_slots = []\<rparr>"
      and ?t2.0="(example_node [1, 2])\<lparr>current_probe_row := Some 1, probe_batch_pos := 1,
            hash_tbl_iterator := [], matched_probe := True\<rparr>"
      and ?l2.0="\<lparr>num_rows_added = 2, row_slots = [(1, Some 11), (1, Some 13)]\<rparr>"
      and prow=2 and phash="0x80000000" and r="Hash_partition 2" and ppart=spilled_partition
      and pstream="[]" and pmsg="''spill write failed''"
      and u="example_node [1, 2]" and st="Error ''spill write failed''"
      and out_batch'="\<lparr>capacity = 8, tuple_rows = []\<rparr>"
      and u'="(example_node [1, 2])\<lparr>current_probe_row := Some 2, probe_batch_pos := 2,
              hash_tbl_iterator := [], matched_probe := False,
              status := Error ''spill write failed''\<rparr>"]
  by (simp add: run_simps)

section \<open>The capacity of the output batch\<close>

lemma added_since_refl: "added_since l l"
  by (simp add: added_since_def)

lemma added_since_trans: "added_since l0 l1 \<Longrightarrow> added_since l1 l2 \<Longrightarrow> added_since l0 l2"
  by (auto simp: added_since_def)

lemma added_since_one:
  "added_since l (l\<lparr>num_rows_added := num_rows_added l + 1, row_slots := row_slots l @ [r]\<rparr>)"
  by (simp add: added_since_def)

lemma match_step_added:
  assumes "match_step E JoinOp max_rows p b rest (s, l) = (x, s', l')"
  shows "added_since l l'"
  using assms
  by (auto simp: match_step_def Let_def added_since_refl added_since_one split: if_splits)

lemma match_step_bound:
  assumes "match_step E JoinOp max_rows p b rest (s, l) = (x, s', l')"
    "num_rows_added l < max_rows"
  shows "if x = Some True then num_rows_added l' = max_rows else num_rows_added l' < max_rows"
  using assms
  by (auto simp: match_step_def Let_def split: if_splits)

lemma scan_matches_bound:
  assumes "added_since l0 l" "num_rows_added l < max_rows"
  shows "case scan_matches E JoinOp max_rows p (s, l) of
           (g, s', l') \<Rightarrow> added_since l0 l' \<and>
             (if g then num_rows_added l' = max_rows else num_rows_added l' < max_rows)"
proof (rule scan_matches_rule[where
      Q="\<lambda>sl. added_since l0 (snd sl) \<and> num_rows_added (snd sl) < max_rows"])
  show "added_since l0 (snd (s, l)) \<and> num_rows_added (snd (s, l)) < max_rows"
    using assms by simp
next
  fix sl :: "PartitionedHashJoinNode \<times> probe_locals"
  assume "added_since l0 (snd sl) \<and> num_rows_added (snd sl) < max_rows"
  then show "case (False, sl) of
           (g, s', l') \<Rightarrow> added_since l0 l' \<and>
             (if g then num_rows_added l' = max_rows else num_rows_added l' < max_rows)"
    by (cases sl) simp
next
  fix sl :: "PartitionedHashJoinNode \<times> probe_locals" and b rest x sl1
  assume q: "added_since l0 (snd sl) \<and> num_rows_added (snd sl) < max_rows"
    and ms: "match_step E JoinOp max_rows p b rest sl = (x, sl1)"
  obtain s l where sl: "sl = (s, l)" by (cases sl)
  obtain s1 l1 where sl1: "sl1 = (s1, l1)" by (cases sl1)
  from ms sl sl1 have ms': "match_step E JoinOp max_rows p b rest (s, l) = (x, s1, l1)" by simp
  from match_step_added[OF ms'] match_step_bound[OF ms'] q sl
  have "added_since l0 l1"
    "if x = Some True then num_rows_added l1 = max_rows else num_rows_added l1 < max_rows"
    by (auto intro: added_since_trans)
  then show "case x of None \<Rightarrow> added_since l0 (snd sl1) \<and> num_rows_added (snd sl1) < max_rows
             | Some g \<Rightarrow> (case (g, sl1) of
           (g, s', l') \<Rightarrow> added_since l0 l' \<and>
             (if g then num_rows_added l' = max_rows else num_rows_added l' < max_rows))"
    using sl1 by (cases x) (auto split: if_splits)
qed


lemma current_row_phase_bound:
  assumes "added_since l0 l" "num_rows_added l < max_rows"
    "current_row_phase E JoinOp max_rows (s, l) = (g, s', l')"
  shows "added_since l0 l' \<and>
         (if g then num_rows_added l' = max_rows else num_rows_added l' < max_rows)"
proof (cases "current_probe_row s")
  case None
  with assms show ?thesis by (simp add: current_row_phase_def)
next
  case (Some p)
  obtain g1 s1 l1 where sm: "scan_matches E JoinOp max_rows p (s, l) = (g1, s1, l1)"
    by (metis prod_cases3)
  from scan_matches_bound[OF assms(1,2), of E JoinOp p s] sm
  have b: "added_since l0 l1"
    "if g1 then num_rows_added l1 = max_rows else num_rows_added l1 < max_rows"
    by simp_all
  show ?thesis
  proof (cases g1)
    case True
    with assms(3) Some sm b show ?thesis by (simp add: current_row_phase_def)
  next
    case False
    have "added_since l0 (l1\<lparr>num_rows_added := num_rows_added l1 + 1,
                             row_slots := row_slots l1 @ [CreateOutputRow p None]\<rparr>)"
      using b(1) added_since_one by (rule added_since_trans)
    with False assms(3) Some sm b show ?thesis
      by (auto simp: current_row_phase_def Let_def split: if_splits)
  qed
qed

lemma probe_iteration_bound:
  assumes "added_since l0 l" "num_rows_added l < max_rows"
    "probe_iteration E JoinOp max_rows (s, l) = (x, s', l')"
  shows "added_since l0 l' \<and> num_rows_added l' \<le> max_rows \<and>
         (x = None \<longrightarrow> num_rows_added l' < max_rows)"
proof -
  obtain g s1 l1 where ph: "current_row_phase E JoinOp max_rows (s, l) = (g, s1, l1)"
    by (metis prod_cases3)
  note b = current_row_phase_bound[OF assms(1,2) ph]
  show ?thesis
  proof (cases g)
    case True
    with assms(3) ph b show ?thesis by (auto simp: probe_iteration_def)
  next
    case False
    with assms(3) ph b show ?thesis
      by (auto simp: probe_iteration_def split: prod.splits)
  qed
qed

lemma probe_loop_bound:
  assumes "added_since l0 l" "num_rows_added l < max_rows"
  shows "case probe_loop E JoinOp max_rows (s, l) of
           (x, s', l') \<Rightarrow> added_since l0 l' \<and> num_rows_added l' \<le> max_rows"
proof (rule probe_loop_rule[where
      Q="\<lambda>sl. added_since l0 (snd sl) \<and> num_rows_added (snd sl) < max_rows"])
  show "added_since l0 (snd (s, l)) \<and> num_rows_added (snd (s, l)) < max_rows"
    using assms by simp
next
  fix sl :: "PartitionedHashJoinNode \<times> probe_locals"
  assume "added_since l0 (snd sl) \<and> num_rows_added (snd sl) < max_rows"
  then show "case (goto_end, sl) of
           (x, s', l') \<Rightarrow> added_since l0 l' \<and> num_rows_added l' \<le> max_rows"
    by (cases sl) simp
next
  fix sl :: "PartitionedHashJoinNode \<times> probe_locals" and x sl1
  assume q: "added_since l0 (snd sl) \<and> num_rows_added (snd sl) < max_rows"
    and it: "probe_iteration E JoinOp max_rows sl = (x, sl1)"
  obtain s l where sl: "sl = (s, l)" by (cases sl)
  obtain s1 l1 where sl1: "sl1 = (s1, l1)" by (cases sl1)
  from it sl sl1 have "probe_iteration E JoinOp max_rows (s, l) = (x, s1, l1)" by simp
  from probe_iteration_bound[OF _ _ this, of l0] q sl
  have "added_since l0 l1 \<and> num_rows_added l1 \<le> max_rows \<and>
         (x = None \<longrightarrow> num_rows_added l1 < max_rows)"
    by simp
  then show "case x of None \<Rightarrow> added_since l0 (snd sl1) \<and> num_rows_added (snd sl1) < max_rows
             | Some e \<Rightarrow> (case (e, sl1) of
           (x, s', l') \<Rightarrow> added_since l0 l' \<and> num_rows_added l' \<le> max_rows)"
    using sl1 by (cases x) auto
qed

text \<open>
  C2.  A call whose output batch holds fewer rows than its capacity on entry commits at
  most \<open>capacity - num_rows\<close> rows, behind the rows that were there: the batch does not
  hold more rows than its capacity afterwards, and at the label \<^verbatim>\<open>end\<close> the assertion
  \<^verbatim>\<open>DCHECK_LE(num_rows_added, max_rows)\<close> holds.
\<close>

theorem output_batch_never_overflows:
  assumes "ProcessProbeBatch E JoinOp out_batch s = Some (st, out_batch', s')"
    and "\<not> AtCapacity out_batch" and "num_rows out_batch \<le> capacity out_batch"
  shows "(\<exists>new. tuple_rows out_batch' = tuple_rows out_batch @ new \<and>
            int (length new) \<le> capacity out_batch - num_rows out_batch) \<and>
         capacity out_batch' = capacity out_batch \<and>
         num_rows out_batch' \<le> capacity out_batch' \<and>
         (\<forall>s1 l1. probe_loop E JoinOp (capacity out_batch - num_rows out_batch)
                    (s, \<lparr>num_rows_added = 0, row_slots = []\<rparr>) = (goto_end, s1, l1) \<longrightarrow>
                  num_rows_added l1 \<le> capacity out_batch - num_rows out_batch)"
proof -
  let ?m = "capacity out_batch - num_rows out_batch"
  let ?l0 = "\<lparr>num_rows_added = 0, row_slots = []\<rparr>"
  obtain x s1 l1 where pl: "probe_loop E JoinOp ?m (s, ?l0) = (x, s1, l1)"
    by (metis prod_cases3)
  from assms(2,3) have m: "num_rows_added ?l0 < ?m" by (simp add: AtCapacity_def)
  from probe_loop_bound[OF added_since_refl m, of E JoinOp s] pl
  have b: "added_since ?l0 l1" "num_rows_added l1 \<le> ?m" by simp_all
  then have len: "num_rows_added l1 = int (length (row_slots l1))"
    by (auto simp: added_since_def)
  show ?thesis
  proof (cases x)
    case goto_end
    with assms(1) pl have ob: "out_batch' = CommitRows out_batch (num_rows_added l1) (row_slots l1)"
      by (simp add: ProcessProbeBatch_def Let_def)
    with len b pl show ?thesis
      by (simp add: CommitRows_def num_rows_def)
  next
    case return_status
    with assms(1) pl have "out_batch' = out_batch"
      by (simp add: ProcessProbeBatch_def Let_def)
    with assms(2,3) pl return_status show ?thesis by simp
  next
    case undefined_behaviour
    with assms(1) pl show ?thesis by (simp add: ProcessProbeBatch_def Let_def)
  qed
qed

theorem output_batch_never_overflows_witness:
  "ProcessProbeBatch example_env LEFT_OUTER_JOIN \<lparr>capacity = 3, tuple_rows = [(7, None)]\<rparr>
     (example_node [1, 3]) =
     Some (OK, \<lparr>capacity = 3, tuple_rows = [(7, None), (1, Some 11), (1, Some 13)]\<rparr>,
           (example_node [1, 3])\<lparr>current_probe_row := Some 1, probe_batch_pos := 1,
              hash_tbl_iterator := [], matched_probe := True, num_rows_returned := 2\<rparr>) \<and>
   \<not> AtCapacity \<lparr>capacity = 3, tuple_rows = [(7 :: nat, None :: nat option)]\<rparr> \<and>
   num_rows \<lparr>capacity = 3, tuple_rows = [(7 :: nat, None :: nat option)]\<rparr> \<le> 3 \<and>
   num_rows \<lparr>capacity = 3, tuple_rows = [(7 :: nat, None :: nat option), (1, Some 11), (1, Some 13)]\<rparr> \<le> 3 \<and>
   probe_loop example_env LEFT_OUTER_JOIN 2
     (example_node [1, 3], \<lparr>num_rows_added = 0, row_slots = []\<rparr>) =
     (goto_end,
      (example_node [1, 3])\<lparr>current_probe_row := Some 1, probe_batch_pos := 1,
              hash_tbl_iterator := [], matched_probe := True\<rparr>,
      \<lparr>num_rows_added = 2, row_slots = [(1, Some 11), (1, Some 13)]\<rparr>)"
  using output_batch_never_overflows[where E=example_env and JoinOp=LEFT_OUTER_JOIN
      and out_batch="\<lparr>capacity = 3, tuple_rows = [(7, None)]\<rparr>"
      and s="example_node [1, 3]" and st=OK
      and out_batch'="\<lparr>capacity = 3, tuple_rows = [(7, None), (1, Some 11), (1, Some 13)]\<rparr>"
      and s'="(example_node [1, 3])\<lparr>current_probe_row := Some 1, probe_batch_pos := 1,
              hash_tbl_iterator := [], matched_probe := True, num_rows_returned := 2\<rparr>"]
  by (simp add: run_simps)

section \<open>The rows of one probe row\<close>

lemma iterator_reset_idem:
  "hash_tbl_iterator s = [] \<Longrightarrow> s\<lparr>hash_tbl_iterator := []\<rparr> = s"
  by (cases s) simp

lemma scan_matches_no_match:
  assumes "\<forall>c \<in> set (hash_tbl_iterator s). \<not> join_match E p c"
  shows "scan_matches E JoinOp max_rows p (s, l) = (False, s\<lparr>hash_tbl_iterator := []\<rparr>, l)"
  using assms
proof (induction "hash_tbl_iterator s" arbitrary: s)
  case Nil
  then show ?case by (simp add: scan_matches_Nil iterator_reset_idem)
next
  case (Cons c rest)
  from Cons.hyps(2)[symmetric] Cons.prems
  have ms: "match_step E JoinOp max_rows p c rest (s, l) = (None, s\<lparr>hash_tbl_iterator := rest\<rparr>, l)"
    by (simp add: match_step_def join_match_def)
  have "scan_matches E JoinOp max_rows p (s\<lparr>hash_tbl_iterator := rest\<rparr>, l) =
        (False, s\<lparr>hash_tbl_iterator := rest\<rparr>\<lparr>hash_tbl_iterator := []\<rparr>, l)"
    using Cons.hyps(2)[symmetric] Cons.prems by (intro Cons.hyps(1)) simp_all
  with ms Cons.hyps(2)[symmetric] show ?case
    by (simp add: scan_matches_Cons[of "(s, l)" c rest])
qed

lemma scan_matches_skip:
  assumes "hash_tbl_iterator s = pre @ rest" "\<forall>c \<in> set pre. \<not> join_match E p c"
  shows "scan_matches E JoinOp max_rows p (s, l) =
         scan_matches E JoinOp max_rows p (s\<lparr>hash_tbl_iterator := rest\<rparr>, l)"
  using assms
proof (induction pre arbitrary: s)
  case Nil
  then have "s\<lparr>hash_tbl_iterator := rest\<rparr> = s" by (cases s) simp
  then show ?case by simp
next
  case (Cons c pre)
  then have ms: "match_step E JoinOp max_rows p c (pre @ rest) (s, l) =
                 (None, s\<lparr>hash_tbl_iterator := pre @ rest\<rparr>, l)"
    by (simp add: match_step_def join_match_def)
  have "scan_matches E JoinOp max_rows p (s\<lparr>hash_tbl_iterator := pre @ rest\<rparr>, l) =
        scan_matches E JoinOp max_rows p (s\<lparr>hash_tbl_iterator := pre @ rest\<rparr>\<lparr>hash_tbl_iterator := rest\<rparr>, l)"
    using Cons.prems by (intro Cons.IH) simp_all
  with ms Cons.prems(1) show ?case
    by (simp add: scan_matches_Cons[of "(s, l)" c "pre @ rest"])
qed

lemma first_match_split:
  assumes "\<exists>c \<in> set xs. P c"
  shows "\<exists>pre c post. xs = pre @ c # post \<and> (\<forall>x \<in> set pre. \<not> P x) \<and> P c"
  using assms split_list_first_prop[of xs P] by blast


lemma scan_matches_semi:
  assumes "hash_tbl_iterator s = pre @ c # post" "\<forall>x \<in> set pre. \<not> join_match E p x"
    "join_match E p c"
  shows "scan_matches E LEFT_SEMI_JOIN max_rows p (s, l) =
         (if EvalConjuncts (conjunct_ctxs E) (CreateOutputRow p (Some c))
          then (num_rows_added l + 1 = max_rows,
                s\<lparr>matched_probe := True, hash_tbl_iterator := []\<rparr>,
                add_row (CreateOutputRow p (Some c)) l)
          else (False, s\<lparr>matched_probe := True, hash_tbl_iterator := []\<rparr>, l))"
proof -
  let ?s = "s\<lparr>hash_tbl_iterator := c # post\<rparr>"
  let ?s' = "s\<lparr>matched_probe := True, hash_tbl_iterator := []\<rparr>"
  let ?r = "CreateOutputRow p (Some c)"
  have ms: "match_step E LEFT_SEMI_JOIN max_rows p c post (?s, l) =
        (if EvalConjuncts (conjunct_ctxs E) ?r
         then (if num_rows_added l + 1 = max_rows then Some True else None, ?s', add_row ?r l)
         else (None, ?s', l))"
    using assms(3) by (simp add: match_step_def join_match_def add_row_def Let_def)
  have nil: "scan_matches E LEFT_SEMI_JOIN max_rows p (?s', l') = (False, ?s', l')" for l'
    by (simp add: scan_matches_Nil)
  have "scan_matches E LEFT_SEMI_JOIN max_rows p (?s, l) =
         (if EvalConjuncts (conjunct_ctxs E) ?r
          then (num_rows_added l + 1 = max_rows, ?s', add_row ?r l)
          else (False, ?s', l))"
    by (simp add: scan_matches_Cons[of "(?s, l)" c post] ms nil)
  with scan_matches_skip[OF assms(1,2)] show ?thesis by simp
qed



section \<open>An invariant of the probe loop\<close>

lemma match_step_inv:
  assumes "\<And>c. join_match E p c \<Longrightarrow> JoinOp \<noteq> LEFT_ANTI_JOIN \<Longrightarrow>
             EvalConjuncts (conjunct_ctxs E) (CreateOutputRow p (Some c)) \<Longrightarrow>
             Pr (CreateOutputRow p (Some c))"
    and "p \<in> A" and "probe_inv E A M Pr sl"
    and "match_step E JoinOp max_rows p b rest sl = (x, sl1)"
  shows "probe_inv E A M Pr sl1"
proof (cases "join_match E p b")
  case False
  with assms(3,4) show ?thesis
    by (auto simp: match_step_def Let_def join_match_def probe_inv_def)
next
  case True
  have w: "\<exists>q \<in> A. join_match E q b" using True assms(2) by blast
  show ?thesis
  proof (cases "JoinOp = LEFT_ANTI_JOIN")
    case anti: True
    with True assms(3,4) show ?thesis
      by (auto simp: match_step_def Let_def join_match_def probe_inv_def)
  next
    case False
    show ?thesis
    proof (cases "EvalConjuncts (conjunct_ctxs E) (CreateOutputRow p (Some b))")
      case ec: True
      from assms(1)[OF True False ec] True False ec assms(3,4) w show ?thesis
        by (auto simp: match_step_def Let_def join_match_def probe_inv_def split: if_splits)
    next
      case ec: False
      with True False assms(3,4) w show ?thesis
        by (auto simp: match_step_def Let_def join_match_def probe_inv_def split: if_splits)
    qed
  qed
qed

lemma scan_matches_inv:
  assumes "\<And>c. join_match E p c \<Longrightarrow> JoinOp \<noteq> LEFT_ANTI_JOIN \<Longrightarrow>
             EvalConjuncts (conjunct_ctxs E) (CreateOutputRow p (Some c)) \<Longrightarrow>
             Pr (CreateOutputRow p (Some c))"
    and "p \<in> A" and "probe_inv E A M Pr sl"
  shows "probe_inv E A M Pr (snd (scan_matches E JoinOp max_rows p sl))"
proof (rule scan_matches_rule[where Q="probe_inv E A M Pr"
      and R="\<lambda>res. probe_inv E A M Pr (snd res)"])
  show "probe_inv E A M Pr sl" by (rule assms(3))
next
  fix sl :: "PartitionedHashJoinNode \<times> probe_locals"
  assume "probe_inv E A M Pr sl"
  then show "probe_inv E A M Pr (snd (False, sl))" by simp
next
  fix sl :: "PartitionedHashJoinNode \<times> probe_locals" and b rest x sl1
  assume "probe_inv E A M Pr sl"
    and "match_step E JoinOp max_rows p b rest sl = (x, sl1)"
  from match_step_inv[OF assms(1) assms(2) this]
  show "case x of None \<Rightarrow> probe_inv E A M Pr sl1
        | Some g \<Rightarrow> probe_inv E A M Pr (snd (g, sl1))"
    by (cases x) simp_all
qed

lemma current_row_phase_inv:
  assumes "\<And>p c. p \<in> A \<Longrightarrow> join_match E p c \<Longrightarrow> JoinOp \<noteq> LEFT_ANTI_JOIN \<Longrightarrow>
             EvalConjuncts (conjunct_ctxs E) (CreateOutputRow p (Some c)) \<Longrightarrow>
             Pr (CreateOutputRow p (Some c))"
    and "\<And>p. p \<in> A \<Longrightarrow> emits_unmatched JoinOp \<Longrightarrow>
             EvalConjuncts (conjunct_ctxs E) (CreateOutputRow p None) \<Longrightarrow>
             Pr (CreateOutputRow p None)"
    and "probe_inv E A M Pr sl"
  shows "probe_inv E A M Pr (snd (current_row_phase E JoinOp max_rows sl))"
proof (cases "current_probe_row (fst sl)")
  case None
  with assms(3) show ?thesis by (simp add: current_row_phase_def)
next
  case (Some p)
  with assms(3) have pA: "p \<in> A" by (simp add: probe_inv_def)
  obtain g s1 l1 where sm: "scan_matches E JoinOp max_rows p sl = (g, s1, l1)"
    by (metis prod_cases3)
  from scan_matches_inv[of E p JoinOp Pr A M sl max_rows, OF assms(1)[OF pA] pA assms(3)] sm
  have inv: "probe_inv E A M Pr (s1, l1)" by simp
  show ?thesis
  proof (cases "\<not> g \<and> emits_unmatched JoinOp \<and> \<not> matched_probe s1 \<and>
                 EvalConjuncts (conjunct_ctxs E) (CreateOutputRow p None)")
    case True
    with assms(2)[OF pA] inv
    have "probe_inv E A M Pr (s1\<lparr>matched_probe := True\<rparr>,
            l1\<lparr>num_rows_added := num_rows_added l1 + 1,
               row_slots := row_slots l1 @ [CreateOutputRow p None]\<rparr>)"
      by (simp add: probe_inv_def)
    with True Some sm show ?thesis
      by (simp add: current_row_phase_def Let_def emits_unmatched_def)
  next
    case False
    with Some sm inv show ?thesis
      by (cases g) (auto simp: current_row_phase_def Let_def emits_unmatched_def)
  qed
qed

lemma next_probe_row_inv:
  assumes "probe_inv E A M Pr (s, l)" "next_probe_row E s = (x, s')"
  shows "probe_inv E A M Pr (s', l)"
proof -
  have row: "row \<in> A" if "GetRow (probe_batch s) (probe_batch_pos s) = Some row" for row
  proof -
    from that have "row \<in> set (tuple_rows (probe_batch s))"
      by (auto simp: GetRow_def num_rows_def split: if_splits)
    with assms(1) show ?thesis by (auto simp: probe_inv_def)
  qed
  from assms row show ?thesis
    unfolding next_probe_row_def Let_def
    by (auto simp: probe_inv_def AppendRow_def store_partition_def
        split: if_splits option.splits prod.splits bool.splits partition_ref.splits)
qed


lemma probe_iteration_inv:
  assumes "\<And>p c. p \<in> A \<Longrightarrow> join_match E p c \<Longrightarrow> JoinOp \<noteq> LEFT_ANTI_JOIN \<Longrightarrow>
             EvalConjuncts (conjunct_ctxs E) (CreateOutputRow p (Some c)) \<Longrightarrow>
             Pr (CreateOutputRow p (Some c))"
    and "\<And>p. p \<in> A \<Longrightarrow> emits_unmatched JoinOp \<Longrightarrow>
             EvalConjuncts (conjunct_ctxs E) (CreateOutputRow p None) \<Longrightarrow>
             Pr (CreateOutputRow p None)"
    and "probe_inv E A M Pr sl"
  shows "probe_inv E A M Pr (snd (probe_iteration E JoinOp max_rows sl))"
proof -
  obtain g s1 l1 where ph: "current_row_phase E JoinOp max_rows sl = (g, s1, l1)"
    by (metis prod_cases3)
  from current_row_phase_inv[of A E JoinOp Pr M sl max_rows, OF assms] ph
  have inv: "probe_inv E A M Pr (s1, l1)" by simp
  obtain x s2 where np: "next_probe_row E s1 = (x, s2)" by (metis prod.exhaust)
  from next_probe_row_inv[OF inv np] inv ph np show ?thesis
    by (cases g) (simp_all add: probe_iteration_def)
qed

lemma probe_loop_inv:
  assumes "\<And>p c. p \<in> A \<Longrightarrow> join_match E p c \<Longrightarrow> JoinOp \<noteq> LEFT_ANTI_JOIN \<Longrightarrow>
             EvalConjuncts (conjunct_ctxs E) (CreateOutputRow p (Some c)) \<Longrightarrow>
             Pr (CreateOutputRow p (Some c))"
    and "\<And>p. p \<in> A \<Longrightarrow> emits_unmatched JoinOp \<Longrightarrow>
             EvalConjuncts (conjunct_ctxs E) (CreateOutputRow p None) \<Longrightarrow>
             Pr (CreateOutputRow p None)"
    and "probe_inv E A M Pr sl"
  shows "probe_inv E A M Pr (snd (probe_loop E JoinOp max_rows sl))"
proof (rule probe_loop_rule[where Q="probe_inv E A M Pr"
      and R="\<lambda>res. probe_inv E A M Pr (snd res)"])
  show "probe_inv E A M Pr sl" by (rule assms(3))
next
  fix sl :: "PartitionedHashJoinNode \<times> probe_locals"
  assume "probe_inv E A M Pr sl"
  then show "probe_inv E A M Pr (snd (goto_end, sl))" by simp
next
  fix sl :: "PartitionedHashJoinNode \<times> probe_locals" and x sl1
  assume q: "probe_inv E A M Pr sl"
    and it: "probe_iteration E JoinOp max_rows sl = (x, sl1)"
  from probe_iteration_inv[of A E JoinOp Pr M sl max_rows, OF assms(1,2) q] it
  have "probe_inv E A M Pr sl1" by simp
  then show "case x of None \<Rightarrow> probe_inv E A M Pr sl1
        | Some e \<Rightarrow> probe_inv E A M Pr (snd (e, sl1))"
    by (cases x) simp_all
qed

text \<open>
  The probe rows of a call: the rows of the probe batch, and the current probe row that
  the call resumes.
\<close>

lemma ProcessProbeBatch_inv:
  assumes "\<And>p c. p \<in> set (tuple_rows (probe_batch s)) \<union> set_option (current_probe_row s) \<Longrightarrow>
             join_match E p c \<Longrightarrow> JoinOp \<noteq> LEFT_ANTI_JOIN \<Longrightarrow>
             EvalConjuncts (conjunct_ctxs E) (CreateOutputRow p (Some c)) \<Longrightarrow>
             Pr (CreateOutputRow p (Some c))"
    and "\<And>p. p \<in> set (tuple_rows (probe_batch s)) \<union> set_option (current_probe_row s) \<Longrightarrow>
             emits_unmatched JoinOp \<Longrightarrow>
             EvalConjuncts (conjunct_ctxs E) (CreateOutputRow p None) \<Longrightarrow>
             Pr (CreateOutputRow p None)"
    and "ProcessProbeBatch E JoinOp out_batch s = Some (st, out_batch', s')"
  shows "(\<exists>new. tuple_rows out_batch' = tuple_rows out_batch @ new \<and> (\<forall>r \<in> set new. Pr r)) \<and>
         ht_matched s \<subseteq> ht_matched s' \<and>
         (\<forall>c \<in> ht_matched s' - ht_matched s.
            \<exists>p \<in> set (tuple_rows (probe_batch s)) \<union> set_option (current_probe_row s).
              join_match E p c)"
proof -
  let ?m = "capacity out_batch - num_rows out_batch"
  let ?l0 = "\<lparr>num_rows_added = 0, row_slots = []\<rparr>"
  let ?A = "set (tuple_rows (probe_batch s)) \<union> set_option (current_probe_row s)"
  obtain x s1 l1 where pl: "probe_loop E JoinOp ?m (s, ?l0) = (x, s1, l1)"
    by (metis prod_cases3)
  have "probe_inv E ?A (ht_matched s) Pr (s, ?l0)"
    by (simp add: probe_inv_def)
  from probe_loop_inv[of ?A E JoinOp Pr "ht_matched s" "(s, ?l0)" ?m, OF assms(1,2) this] pl
  have inv: "probe_inv E ?A (ht_matched s) Pr (s1, l1)" by simp
  then have rows: "\<forall>r \<in> set (row_slots l1). Pr r"
    and m: "ht_matched s \<subseteq> ht_matched s1"
      "\<forall>c \<in> ht_matched s1 - ht_matched s. \<exists>p \<in> ?A. join_match E p c"
    by (simp_all add: probe_inv_def)
  show ?thesis
  proof (cases x)
    case goto_end
    with assms(3) pl
    have "tuple_rows out_batch' =
            tuple_rows out_batch @ take (nat (num_rows_added l1)) (row_slots l1)"
      and s': "ht_matched s' = ht_matched s1"
      by (auto simp: ProcessProbeBatch_def Let_def CommitRows_def)
    moreover from rows have "\<forall>r \<in> set (take (nat (num_rows_added l1)) (row_slots l1)). Pr r"
      by (auto dest: in_set_takeD)
    ultimately have "\<exists>new. tuple_rows out_batch' = tuple_rows out_batch @ new \<and>
                          (\<forall>r \<in> set new. Pr r)"
      by blast
    with m s' show ?thesis by simp
  next
    case return_status
    with assms(3) pl have "out_batch' = out_batch" "s' = s1"
      by (simp_all add: ProcessProbeBatch_def Let_def)
    with m show ?thesis by simp
  next
    case undefined_behaviour
    with assms(3) pl show ?thesis by (simp add: ProcessProbeBatch_def Let_def)
  qed
qed


section \<open>The rows of a left-semi join\<close>

text \<open>The count of the rows that a call writes under a left-semi join.\<close>

lemma match_step_semi_count:
  assumes "match_step E LEFT_SEMI_JOIN max_rows p b rest sl = (x, sl1)"
    and "hash_tbl_iterator (fst sl) = b # rest" and "current_probe_row (fst sl) \<noteq> None"
    and "semi_count sl K"
  shows "semi_count sl1 K \<and> current_probe_row (fst sl1) \<noteq> None"
  using assms
  by (auto simp: match_step_def Let_def semi_count_def row_under_way_def split: if_splits)

lemma scan_matches_semi_count:
  assumes "semi_count sl K \<and> current_probe_row (fst sl) \<noteq> None"
  shows "semi_count (snd (scan_matches E LEFT_SEMI_JOIN max_rows p sl)) K"
proof (rule scan_matches_rule[where
      Q="\<lambda>sl. semi_count sl K \<and> current_probe_row (fst sl) \<noteq> None"
      and R="\<lambda>res. semi_count (snd res) K"])
  show "semi_count sl K \<and> current_probe_row (fst sl) \<noteq> None" by (rule assms)
next
  fix sl :: "PartitionedHashJoinNode \<times> probe_locals"
  assume "semi_count sl K \<and> current_probe_row (fst sl) \<noteq> None"
  then show "semi_count (snd (False, sl)) K" by simp
next
  fix sl :: "PartitionedHashJoinNode \<times> probe_locals" and b rest x sl1
  assume q: "semi_count sl K \<and> current_probe_row (fst sl) \<noteq> None"
    and it: "hash_tbl_iterator (fst sl) = b # rest"
    and ms: "match_step E LEFT_SEMI_JOIN max_rows p b rest sl = (x, sl1)"
  from q match_step_semi_count[OF ms it, of K]
  have "semi_count sl1 K \<and> current_probe_row (fst sl1) \<noteq> None" by blast
  then show "case x of None \<Rightarrow> semi_count sl1 K \<and> current_probe_row (fst sl1) \<noteq> None
        | Some g \<Rightarrow> semi_count (snd (g, sl1)) K"
    by (cases x) simp_all
qed

lemma current_row_phase_semi_count:
  assumes "semi_count sl K"
  shows "semi_count (snd (current_row_phase E LEFT_SEMI_JOIN max_rows sl)) K"
proof (cases "current_probe_row (fst sl)")
  case None
  with assms show ?thesis by (simp add: current_row_phase_def)
next
  case (Some p)
  obtain g s1 l1 where sm: "scan_matches E LEFT_SEMI_JOIN max_rows p sl = (g, s1, l1)"
    by (metis prod_cases3)
  from scan_matches_semi_count[of sl K E max_rows p] assms Some sm
  have "semi_count (s1, l1) K" by simp
  with Some sm show ?thesis
    by (cases g) (simp_all add: current_row_phase_def)
qed

lemma store_partition_semi_count:
  "row_under_way (store_partition r part s) = row_under_way s"
  by (simp add: store_partition_def row_under_way_def split: partition_ref.splits)

lemma next_probe_row_semi_count:
  assumes "semi_count (s, l) K" "next_probe_row E s = (x, s')"
  shows "semi_count (s', l) K"
  using assms
  unfolding next_probe_row_def Let_def
  by (auto simp: semi_count_def row_under_way_def AppendRow_def store_partition_def
      split: if_splits option.splits prod.splits bool.splits partition_ref.splits)

lemma probe_iteration_semi_count:
  assumes "semi_count sl K"
  shows "semi_count (snd (probe_iteration E LEFT_SEMI_JOIN max_rows sl)) K"
proof -
  obtain g s1 l1 where ph: "current_row_phase E LEFT_SEMI_JOIN max_rows sl = (g, s1, l1)"
    by (metis prod_cases3)
  from current_row_phase_semi_count[OF assms, of E max_rows] ph
  have c: "semi_count (s1, l1) K" by simp
  obtain x s2 where np: "next_probe_row E s1 = (x, s2)" by (metis prod.exhaust)
  from next_probe_row_semi_count[OF c np] c ph np show ?thesis
    by (cases g) (simp_all add: probe_iteration_def)
qed

lemma probe_loop_semi_count:
  assumes "semi_count sl K"
  shows "semi_count (snd (probe_loop E LEFT_SEMI_JOIN max_rows sl)) K"
proof (rule probe_loop_rule[where Q="\<lambda>sl. semi_count sl K"
      and R="\<lambda>res. semi_count (snd res) K"])
  show "semi_count sl K" by (rule assms)
next
  fix sl :: "PartitionedHashJoinNode \<times> probe_locals"
  assume "semi_count sl K"
  then show "semi_count (snd (goto_end, sl)) K" by simp
next
  fix sl :: "PartitionedHashJoinNode \<times> probe_locals" and x sl1
  assume q: "semi_count sl K"
    and it: "probe_iteration E LEFT_SEMI_JOIN max_rows sl = (x, sl1)"
  from probe_iteration_semi_count[OF q, of E max_rows] it
  have "semi_count sl1 K" by simp
  then show "case x of None \<Rightarrow> semi_count sl1 K | Some e \<Rightarrow> semi_count (snd (e, sl1)) K"
    by (cases x) simp_all
qed

lemma ProcessProbeBatch_semi_count:
  assumes "ProcessProbeBatch E LEFT_SEMI_JOIN out_batch s = Some (st, out_batch', s')"
  shows "int (length (tuple_rows out_batch')) - int (length (tuple_rows out_batch))
         \<le> probe_batch_pos s' - probe_batch_pos s + row_under_way s"
proof -
  let ?m = "capacity out_batch - num_rows out_batch"
  let ?l0 = "\<lparr>num_rows_added = 0, row_slots = []\<rparr>"
  let ?K = "row_under_way s - probe_batch_pos s"
  obtain x s1 l1 where pl: "probe_loop E LEFT_SEMI_JOIN ?m (s, ?l0) = (x, s1, l1)"
    by (metis prod_cases3)
  have "semi_count (s, ?l0) ?K" by (simp add: semi_count_def)
  from probe_loop_semi_count[OF this, of E ?m] pl
  have c: "num_rows_added l1 = int (length (row_slots l1))"
    "num_rows_added l1 + row_under_way s1 - probe_batch_pos s1 \<le> ?K"
    by (simp_all add: semi_count_def)
  have nn: "0 \<le> row_under_way s1" by (simp add: row_under_way_def)
  show ?thesis
  proof (cases x)
    case goto_end
    with assms pl c
    have "tuple_rows out_batch' = tuple_rows out_batch @ row_slots l1"
      "probe_batch_pos s' = probe_batch_pos s1"
      by (auto simp: ProcessProbeBatch_def Let_def CommitRows_def)
    with c nn show ?thesis by simp
  next
    case return_status
    with assms pl have "out_batch' = out_batch" "s' = s1"
      by (simp_all add: ProcessProbeBatch_def Let_def)
    with c nn show ?thesis by simp
  next
    case undefined_behaviour
    with assms pl show ?thesis by (simp add: ProcessProbeBatch_def Let_def)
  qed
qed

lemma current_row_phase_semi_first:
  assumes "current_probe_row s = Some p"
    "hash_tbl_iterator s = pre @ c # post" "\<forall>x \<in> set pre. \<not> join_match E p x"
    "join_match E p c"
  shows "current_row_phase E LEFT_SEMI_JOIN max_rows (s, l) =
         (if EvalConjuncts (conjunct_ctxs E) (CreateOutputRow p (Some c))
          then (num_rows_added l + 1 = max_rows,
                s\<lparr>matched_probe := True, hash_tbl_iterator := []\<rparr>,
                add_row (CreateOutputRow p (Some c)) l)
          else (False, s\<lparr>matched_probe := True, hash_tbl_iterator := []\<rparr>, l))"
  using assms(1)
  by (auto simp: current_row_phase_def scan_matches_semi[OF assms(2,3,4)] split: bool.splits)

lemma current_row_phase_no_match:
  assumes "current_probe_row s = Some p" "\<not> emits_unmatched JoinOp"
    "\<forall>c \<in> set (hash_tbl_iterator s). \<not> join_match E p c"
  shows "current_row_phase E JoinOp max_rows (s, l) = (False, s\<lparr>hash_tbl_iterator := []\<rparr>, l)"
  using assms(1,2)
  by (simp add: current_row_phase_def scan_matches_no_match[OF assms(3)] emits_unmatched_def)

text \<open>
  Left-semi join.  (1) With the first candidate \<open>c\<close> that passes the join conjuncts, and
  whatever candidates \<open>post\<close> stand behind it in the match iterator, lines 52-101 write the
  one row that pairs the probe row with \<open>c\<close> if it passes the conjuncts of the node, and
  nothing otherwise; the iterator is reset, so \<open>post\<close> is never visited.  (2) In every
  case these lines write at most one row and leave the iterator at its end, and running
  them again on the state they leave writes nothing.  (3) A call commits no more rows
  than it takes rows from the probe batch, and one more when it resumes a probe row that
  has candidates left.
\<close>

lemma left_semi_row_steps:
  "(current_probe_row s = Some p \<and> hash_tbl_iterator s = pre @ c # post \<and>
    (\<forall>x \<in> set pre. \<not> join_match E p x) \<and> join_match E p c \<longrightarrow>
      current_row_phase E LEFT_SEMI_JOIN max_rows (s, l) =
        (if EvalConjuncts (conjunct_ctxs E) (CreateOutputRow p (Some c))
         then (num_rows_added l + 1 = max_rows,
               s\<lparr>matched_probe := True, hash_tbl_iterator := []\<rparr>,
               add_row (CreateOutputRow p (Some c)) l)
         else (False, s\<lparr>matched_probe := True, hash_tbl_iterator := []\<rparr>, l))) \<and>
   (current_probe_row t = Some q \<and>
    current_row_phase E LEFT_SEMI_JOIN max_rows' (t, k) = (g, t', k') \<longrightarrow>
      (k' = k \<or> (\<exists>b. k' = add_row (CreateOutputRow q (Some b)) k)) \<and>
      hash_tbl_iterator t' = [] \<and>
      current_row_phase E LEFT_SEMI_JOIN max_rows'' (t', k'') = (False, t', k'')) \<and>
   (ProcessProbeBatch E LEFT_SEMI_JOIN out_batch u = Some (st, out_batch', u') \<longrightarrow>
      int (length (tuple_rows out_batch')) - int (length (tuple_rows out_batch))
      \<le> probe_batch_pos u' - probe_batch_pos u + row_under_way u)"
proof (intro conjI impI)
  assume "current_probe_row s = Some p \<and> hash_tbl_iterator s = pre @ c # post \<and>
    (\<forall>x \<in> set pre. \<not> join_match E p x) \<and> join_match E p c"
  then show "current_row_phase E LEFT_SEMI_JOIN max_rows (s, l) =
        (if EvalConjuncts (conjunct_ctxs E) (CreateOutputRow p (Some c))
         then (num_rows_added l + 1 = max_rows,
               s\<lparr>matched_probe := True, hash_tbl_iterator := []\<rparr>,
               add_row (CreateOutputRow p (Some c)) l)
         else (False, s\<lparr>matched_probe := True, hash_tbl_iterator := []\<rparr>, l))"
    using current_row_phase_semi_first[of s p pre c post E max_rows l] by simp
next
  assume a: "current_probe_row t = Some q \<and>
    current_row_phase E LEFT_SEMI_JOIN max_rows' (t, k) = (g, t', k')"
  have r: "(k' = k \<or> (\<exists>b. k' = add_row (CreateOutputRow q (Some b)) k)) \<and>
      hash_tbl_iterator t' = [] \<and> current_probe_row t' = Some q"
  proof (cases "\<exists>c \<in> set (hash_tbl_iterator t). join_match E q c")
    case True
    from first_match_split[OF True] obtain pre c post where
      "hash_tbl_iterator t = pre @ c # post" "\<forall>x \<in> set pre. \<not> join_match E q x"
      "join_match E q c" by blast
    from current_row_phase_semi_first[OF _ this, of max_rows' k] a show ?thesis
      by (auto split: if_splits)
  next
    case False
    then have "\<forall>c \<in> set (hash_tbl_iterator t). \<not> join_match E q c" by simp
    from current_row_phase_no_match[OF _ _ this, of LEFT_SEMI_JOIN max_rows' k] a
    show ?thesis by (auto simp: emits_unmatched_def)
  qed
  then show "k' = k \<or> (\<exists>b. k' = add_row (CreateOutputRow q (Some b)) k)"
    and "hash_tbl_iterator t' = []" by simp_all
  from r show "current_row_phase E LEFT_SEMI_JOIN max_rows'' (t', k'') = (False, t', k'')"
    by (simp add: current_row_phase_def scan_matches_Nil)
next
  assume "ProcessProbeBatch E LEFT_SEMI_JOIN out_batch u = Some (st, out_batch', u')"
  then show "int (length (tuple_rows out_batch')) - int (length (tuple_rows out_batch))
      \<le> probe_batch_pos u' - probe_batch_pos u + row_under_way u"
    by (rule ProcessProbeBatch_semi_count)
qed

section \<open>Rows without a hash\<close>


lemma next_probe_row_no_hash:
  assumes "probe_batch_pos s \<noteq> num_rows (probe_batch s)"
    "GetRow (probe_batch s) (probe_batch_pos s) = Some row"
    "EvalAndHashProbe E row = None"
  shows "next_probe_row E s =
     (None, s\<lparr>current_probe_row := Some row, probe_batch_pos := probe_batch_pos s + 1,
              matched_probe := False\<rparr>)"
  using assms by (simp add: next_probe_row_def Let_def)

lemma next_probe_row_closed:
  assumes "probe_batch_pos s \<noteq> num_rows (probe_batch s)"
    "GetRow (probe_batch s) (probe_batch_pos s) = Some row"
    "EvalAndHashProbe E row = Some hash" "probe_partition E s hash = Some (r, part)"
    "is_closed part"
  shows "next_probe_row E s =
     (None, s\<lparr>current_probe_row := Some row, probe_batch_pos := probe_batch_pos s + 1,
              matched_probe := False\<rparr>)"
proof -
  have pp: "probe_partition E
          (s\<lparr>current_probe_row := Some row, probe_batch_pos := probe_batch_pos s + 1,
             matched_probe := False\<rparr>) hash = Some (r, part)"
    by (subst probe_partition_frame[where s=s]) (simp_all add: assms(4))
  show ?thesis
    unfolding next_probe_row_def Let_def
    by (simp add: assms(1,2,3,5) pp)
qed


section \<open>Joins that emit matches only\<close>

text \<open>
  C10.  For the inner, left-semi and right-outer joins: (1) every row that
  \<^verbatim>\<open>ProcessProbeBatch\<close> commits pairs a probe row of the call with a build row that passes
  the join conjuncts against it; (2) when no candidate left in the match iterator passes
  the join conjuncts, lines 52-101 write nothing; (3) a probe row without a hash, or whose
  partition is closed, gets no candidates (the iterator stays at its end, as line 104
  asserts), and the next turn writes nothing for it.
\<close>

theorem matching_joins_emit_matches_only:
  "(JoinOp \<in> {INNER_JOIN, LEFT_SEMI_JOIN, RIGHT_OUTER_JOIN} \<and>
    ProcessProbeBatch E JoinOp out_batch t = Some (st, out_batch', t') \<longrightarrow>
      (\<exists>new. tuple_rows out_batch' = tuple_rows out_batch @ new \<and>
         (\<forall>r \<in> set new. \<exists>p c. r = CreateOutputRow p (Some c) \<and>
            p \<in> set (tuple_rows (probe_batch t)) \<union> set_option (current_probe_row t) \<and>
            join_match E p c))) \<and>
   (JoinOp' \<in> {INNER_JOIN, LEFT_SEMI_JOIN, RIGHT_OUTER_JOIN} \<and>
    current_probe_row s = Some p \<and> (\<forall>c \<in> set (hash_tbl_iterator s). \<not> join_match E p c) \<longrightarrow>
      current_row_phase E JoinOp' max_rows (s, l) = (False, s\<lparr>hash_tbl_iterator := []\<rparr>, l)) \<and>
   (JoinOp'' \<in> {INNER_JOIN, LEFT_SEMI_JOIN, RIGHT_OUTER_JOIN} \<and>
    probe_batch_pos u \<noteq> num_rows (probe_batch u) \<and>
    GetRow (probe_batch u) (probe_batch_pos u) = Some row \<and> hash_tbl_iterator u = [] \<and>
    (EvalAndHashProbe E row = None \<or>
     (\<exists>hash r part. EvalAndHashProbe E row = Some hash \<and>
        probe_partition E u hash = Some (r, part) \<and> is_closed part)) \<longrightarrow>
      next_probe_row E u =
        (None, u\<lparr>current_probe_row := Some row, probe_batch_pos := probe_batch_pos u + 1,
                 matched_probe := False\<rparr>) \<and>
      current_row_phase E JoinOp'' max_rows'
        (u\<lparr>current_probe_row := Some row, probe_batch_pos := probe_batch_pos u + 1,
           matched_probe := False\<rparr>, k) =
        (False, u\<lparr>current_probe_row := Some row, probe_batch_pos := probe_batch_pos u + 1,
                  matched_probe := False\<rparr>, k))"
proof (intro conjI impI)
  assume a: "JoinOp \<in> {INNER_JOIN, LEFT_SEMI_JOIN, RIGHT_OUTER_JOIN} \<and>
    ProcessProbeBatch E JoinOp out_batch t = Some (st, out_batch', t')"
  let ?A = "set (tuple_rows (probe_batch t)) \<union> set_option (current_probe_row t)"
  have "(\<exists>new. tuple_rows out_batch' = tuple_rows out_batch @ new \<and>
          (\<forall>r \<in> set new. \<exists>p c. r = CreateOutputRow p (Some c) \<and> p \<in> ?A \<and> join_match E p c)) \<and>
         ht_matched t \<subseteq> ht_matched t' \<and>
         (\<forall>c \<in> ht_matched t' - ht_matched t. \<exists>p \<in> ?A. join_match E p c)"
  proof (rule ProcessProbeBatch_inv)
    show "ProcessProbeBatch E JoinOp out_batch t = Some (st, out_batch', t')" using a by simp
  next
    fix p c assume "p \<in> ?A" "join_match E p c"
    then show "\<exists>p' c'. CreateOutputRow p (Some c) = CreateOutputRow p' (Some c') \<and> p' \<in> ?A \<and>
                 join_match E p' c'"
      by blast
  next
    fix p assume "emits_unmatched JoinOp"
    with a show "\<exists>p' c'. CreateOutputRow p None = CreateOutputRow p' (Some c') \<and> p' \<in> ?A \<and>
                 join_match E p' c'"
      by (auto simp: emits_unmatched_def)
  qed
  then show "\<exists>new. tuple_rows out_batch' = tuple_rows out_batch @ new \<and>
         (\<forall>r \<in> set new. \<exists>p c. r = CreateOutputRow p (Some c) \<and> p \<in> ?A \<and> join_match E p c)"
    by simp
next
  assume "JoinOp' \<in> {INNER_JOIN, LEFT_SEMI_JOIN, RIGHT_OUTER_JOIN} \<and>
    current_probe_row s = Some p \<and> (\<forall>c \<in> set (hash_tbl_iterator s). \<not> join_match E p c)"
  then show "current_row_phase E JoinOp' max_rows (s, l) = (False, s\<lparr>hash_tbl_iterator := []\<rparr>, l)"
    by (intro current_row_phase_no_match) (auto simp: emits_unmatched_def)
next
  let ?u = "u\<lparr>current_probe_row := Some row, probe_batch_pos := probe_batch_pos u + 1,
             matched_probe := False\<rparr>"
  assume a: "JoinOp'' \<in> {INNER_JOIN, LEFT_SEMI_JOIN, RIGHT_OUTER_JOIN} \<and>
    probe_batch_pos u \<noteq> num_rows (probe_batch u) \<and>
    GetRow (probe_batch u) (probe_batch_pos u) = Some row \<and> hash_tbl_iterator u = [] \<and>
    (EvalAndHashProbe E row = None \<or>
     (\<exists>hash r part. EvalAndHashProbe E row = Some hash \<and>
        probe_partition E u hash = Some (r, part) \<and> is_closed part))"
  then show "next_probe_row E u = (None, ?u)"
    using next_probe_row_no_hash[of u row E] next_probe_row_closed[of u row E] by blast
  from a have "current_row_phase E JoinOp'' max_rows' (?u, k) =
      (False, ?u\<lparr>hash_tbl_iterator := []\<rparr>, k)"
    by (intro current_row_phase_no_match) (auto simp: emits_unmatched_def)
  moreover from a have "?u\<lparr>hash_tbl_iterator := []\<rparr> = ?u"
    by (intro iterator_reset_idem) simp
  ultimately show "current_row_phase E JoinOp'' max_rows' (?u, k) = (False, ?u, k)" by simp
qed

theorem matching_joins_emit_matches_only_witness:
  "ProcessProbeBatch example_env RIGHT_OUTER_JOIN \<lparr>capacity = 8, tuple_rows = []\<rparr>
     (example_node [1, 3]) =
     Some (OK, \<lparr>capacity = 8, tuple_rows = [(1, Some 11), (1, Some 13)]\<rparr>,
           (example_node [1, 3])\<lparr>probe_batch_pos := 2, num_rows_returned := 2,
              ht_matched := {11, 13}\<rparr>) \<and>
   join_match example_env 1 11 \<and> join_match example_env 1 13 \<and>
   \<not> join_match example_env 1 12 \<and>
   current_row_phase example_env INNER_JOIN 5
     ((example_node [1])\<lparr>current_probe_row := Some 1, probe_batch_pos := 1,
         hash_tbl_iterator := [12]\<rparr>, \<lparr>num_rows_added = 0, row_slots = []\<rparr>) =
     (False,
      (example_node [1])\<lparr>current_probe_row := Some 1, probe_batch_pos := 1,
         hash_tbl_iterator := []\<rparr>,
      \<lparr>num_rows_added = 0, row_slots = []\<rparr>) \<and>
   EvalAndHashProbe example_env 3 = Some 0xC0000000 \<and>
   probe_partition example_env (example_node [3]) 0xC0000000 =
     Some (Hash_partition 3, closed_partition) \<and>
   is_closed closed_partition \<and>
   next_probe_row example_env (example_node [3]) =
     (None, (example_node [3])\<lparr>current_probe_row := Some 3, probe_batch_pos := 1\<rparr>) \<and>
   current_row_phase example_env LEFT_SEMI_JOIN 5
     ((example_node [3])\<lparr>current_probe_row := Some 3, probe_batch_pos := 1\<rparr>,
      \<lparr>num_rows_added = 0, row_slots = []\<rparr>) =
     (False, (example_node [3])\<lparr>current_probe_row := Some 3, probe_batch_pos := 1\<rparr>,
      \<lparr>num_rows_added = 0, row_slots = []\<rparr>)"
  using matching_joins_emit_matches_only[where E=example_env and JoinOp=RIGHT_OUTER_JOIN
      and out_batch="\<lparr>capacity = 8, tuple_rows = []\<rparr>" and t="example_node [1, 3]" and st=OK
      and out_batch'="\<lparr>capacity = 8, tuple_rows = [(1, Some 11), (1, Some 13)]\<rparr>"
      and t'="(example_node [1, 3])\<lparr>probe_batch_pos := 2, num_rows_returned := 2,
              ht_matched := {11, 13}\<rparr>"
      and JoinOp'=INNER_JOIN
      and s="(example_node [1])\<lparr>current_probe_row := Some 1, probe_batch_pos := 1,
         hash_tbl_iterator := [12]\<rparr>"
      and p=1 and max_rows=5 and l="\<lparr>num_rows_added = 0, row_slots = []\<rparr>"
      and JoinOp''=LEFT_SEMI_JOIN and u="example_node [3]" and row=3 and max_rows'=5
      and k="\<lparr>num_rows_added = 0, row_slots = []\<rparr>"]
  by (simp add: run_simps join_match_def insert_commute)

section \<open>The matched flag of build rows\<close>












section \<open>Suspending and resuming a call\<close>

text \<open>
  \<open>num_rows_returned\<close> is only written, at the end of a call: a different value of it
  changes nothing else.
\<close>

lemma match_step_returned:
  "match_step E JoinOp max_rows p b rest (s\<lparr>num_rows_returned := v\<rparr>, l) =
     (case match_step E JoinOp max_rows p b rest (s, l) of
        (x, s1, l1) \<Rightarrow> (x, s1\<lparr>num_rows_returned := v\<rparr>, l1))"
  by (simp add: match_step_def Let_def)

lemma scan_matches_returned:
  "scan_matches E JoinOp max_rows p ((fst sl)\<lparr>num_rows_returned := v\<rparr>, snd sl) =
     (case scan_matches E JoinOp max_rows p sl of
        (g, s1, l1) \<Rightarrow> (g, s1\<lparr>num_rows_returned := v\<rparr>, l1))"
proof (induction sl rule: scan_induct[where E=E and JoinOp=JoinOp and max_rows=max_rows and p=p])
  case (Nil sl)
  then show ?case by (cases sl) (simp add: scan_matches_Nil)
next
  case (Cons sl b rest x sl1)
  obtain s l where sl: "sl = (s, l)" by (cases sl)
  obtain s1 l1 where sl1: "sl1 = (s1, l1)" by (cases sl1)
  from Cons.hyps(2) sl sl1
  have ms: "match_step E JoinOp max_rows p b rest (s, l) = (x, s1, l1)" by simp
  then have ms': "match_step E JoinOp max_rows p b rest (s\<lparr>num_rows_returned := v\<rparr>, l) =
      (x, s1\<lparr>num_rows_returned := v\<rparr>, l1)"
    by (simp add: match_step_returned)
  have it: "hash_tbl_iterator (fst (s\<lparr>num_rows_returned := v\<rparr>, l)) = b # rest"
    using Cons.hyps(1) sl by simp
  show ?case
  proof (cases x)
    case None
    with Cons.IH sl1
    have "scan_matches E JoinOp max_rows p (s1\<lparr>num_rows_returned := v\<rparr>, l1) =
          (case scan_matches E JoinOp max_rows p (s1, l1) of
             (g, s2, l2) \<Rightarrow> (g, s2\<lparr>num_rows_returned := v\<rparr>, l2))"
      by simp
    with None ms ms' sl Cons.hyps(1) show ?thesis
      by (simp add: scan_matches_Cons[OF it] scan_matches_Cons[of "(s, l)" b rest])
  next
    case (Some g)
    with ms ms' sl Cons.hyps(1) show ?thesis
      by (simp add: scan_matches_Cons[OF it] scan_matches_Cons[of "(s, l)" b rest])
  qed
qed

lemma current_row_phase_returned:
  "current_row_phase E JoinOp max_rows (s\<lparr>num_rows_returned := v\<rparr>, l) =
     (case current_row_phase E JoinOp max_rows (s, l) of
        (g, s1, l1) \<Rightarrow> (g, s1\<lparr>num_rows_returned := v\<rparr>, l1))"
proof (cases "current_probe_row s")
  case None
  then show ?thesis by (simp add: current_row_phase_def)
next
  case (Some p)
  obtain g s1 l1 where sm: "scan_matches E JoinOp max_rows p (s, l) = (g, s1, l1)"
    by (metis prod_cases3)
  with scan_matches_returned[where E=E and JoinOp=JoinOp and max_rows=max_rows and p=p
      and sl="(s, l)" and v=v]
  have "scan_matches E JoinOp max_rows p (s\<lparr>num_rows_returned := v\<rparr>, l) =
        (g, s1\<lparr>num_rows_returned := v\<rparr>, l1)"
    by simp
  with Some sm show ?thesis
    by (cases g) (simp_all add: current_row_phase_def Let_def)
qed

lemma store_partition_returned:
  "store_partition r part (s\<lparr>num_rows_returned := v\<rparr>) =
   (store_partition r part s)\<lparr>num_rows_returned := v\<rparr>"
  by (simp add: store_partition_def split: partition_ref.splits)

lemma probe_partition_returned:
  "probe_partition E (s\<lparr>num_rows_returned := v\<rparr>) hash = probe_partition E s hash"
  by (rule probe_partition_frame) simp_all

lemma next_probe_row_returned:
  "next_probe_row E (s\<lparr>num_rows_returned := v\<rparr>) =
     (case next_probe_row E s of (x, s1) \<Rightarrow> (x, s1\<lparr>num_rows_returned := v\<rparr>))"
proof -
  have pp: "probe_partition E
      (s\<lparr>num_rows_returned := v, current_probe_row := c, probe_batch_pos := n,
          matched_probe := m\<rparr>) hash =
    probe_partition E
      (s\<lparr>current_probe_row := c, probe_batch_pos := n, matched_probe := m\<rparr>) hash"
    for c n m hash
    by (rule probe_partition_frame) simp_all
  show ?thesis
    unfolding next_probe_row_def Let_def
    by (simp add: pp AppendRow_def store_partition_def
        split: option.splits prod.splits bool.splits partition_ref.splits)
qed

lemma probe_iteration_returned:
  "probe_iteration E JoinOp max_rows (s\<lparr>num_rows_returned := v\<rparr>, l) =
     (case probe_iteration E JoinOp max_rows (s, l) of
        (x, s1, l1) \<Rightarrow> (x, s1\<lparr>num_rows_returned := v\<rparr>, l1))"
proof -
  obtain g s1 l1 where ph: "current_row_phase E JoinOp max_rows (s, l) = (g, s1, l1)"
    by (metis prod_cases3)
  then have ph': "current_row_phase E JoinOp max_rows (s\<lparr>num_rows_returned := v\<rparr>, l) =
      (g, s1\<lparr>num_rows_returned := v\<rparr>, l1)"
    by (simp add: current_row_phase_returned)
  show ?thesis
    by (cases g) (simp_all add: probe_iteration_def ph ph' next_probe_row_returned
        split: prod.splits)
qed

lemma probe_loop_returned:
  "probe_loop E JoinOp max_rows ((fst sl)\<lparr>num_rows_returned := v\<rparr>, snd sl) =
     (case probe_loop E JoinOp max_rows sl of
        (x, s1, l1) \<Rightarrow> (x, s1\<lparr>num_rows_returned := v\<rparr>, l1))"
proof (induction sl rule: probe_induct[where E=E and JoinOp=JoinOp and max_rows=max_rows])
  case (Stop sl)
  then show ?case by (cases sl) (simp add: probe_loop_stop)
next
  case (Step sl x sl1)
  obtain s l where sl: "sl = (s, l)" by (cases sl)
  obtain s1 l1 where sl1: "sl1 = (s1, l1)" by (cases sl1)
  from Step.hyps(2) sl sl1
  have it: "probe_iteration E JoinOp max_rows (s, l) = (x, s1, l1)" by simp
  then have it': "probe_iteration E JoinOp max_rows (s\<lparr>num_rows_returned := v\<rparr>, l) =
      (x, s1\<lparr>num_rows_returned := v\<rparr>, l1)"
    by (simp add: probe_iteration_returned)
  have pos: "0 \<le> probe_batch_pos (fst (s\<lparr>num_rows_returned := v\<rparr>, l))"
    "0 \<le> probe_batch_pos (fst (s, l))"
    using Step.hyps(1) sl by simp_all
  show ?case
  proof (cases x)
    case None
    with Step.IH sl1
    have "probe_loop E JoinOp max_rows (s1\<lparr>num_rows_returned := v\<rparr>, l1) =
          (case probe_loop E JoinOp max_rows (s1, l1) of
             (x, s2, l2) \<Rightarrow> (x, s2\<lparr>num_rows_returned := v\<rparr>, l2))"
      by simp
    with None it it' sl show ?thesis
      by (simp add: probe_loop_step[OF pos(1)] probe_loop_step[OF pos(2)])
  next
    case (Some e)
    with it it' sl show ?thesis
      by (simp add: probe_loop_step[OF pos(1)] probe_loop_step[OF pos(2)])
  qed
qed

text \<open>
  The loops look at the distance between \<open>num_rows_added\<close> and \<open>max_rows\<close> only: rows
  written earlier, and as many more rows of capacity, change nothing else.
\<close>

lemma match_step_shift:
  "match_step E JoinOp (int (length pre) + max_rows) p b rest (s, prepend_rows pre l) =
     (case match_step E JoinOp max_rows p b rest (s, l) of
        (x, s1, l1) \<Rightarrow> (x, s1, prepend_rows pre l1))"
  by (simp add: match_step_def Let_def prepend_rows_def)

lemma scan_matches_shift:
  "scan_matches E JoinOp (int (length pre) + max_rows) p (fst sl, prepend_rows pre (snd sl)) =
     (case scan_matches E JoinOp max_rows p sl of
        (g, s1, l1) \<Rightarrow> (g, s1, prepend_rows pre l1))"
proof (induction sl rule: scan_induct[where E=E and JoinOp=JoinOp and max_rows=max_rows and p=p])
  case (Nil sl)
  then show ?case by (cases sl) (simp add: scan_matches_Nil)
next
  case (Cons sl b rest x sl1)
  obtain s l where sl: "sl = (s, l)" by (cases sl)
  obtain s1 l1 where sl1: "sl1 = (s1, l1)" by (cases sl1)
  from Cons.hyps(2) sl sl1
  have ms: "match_step E JoinOp max_rows p b rest (s, l) = (x, s1, l1)" by simp
  then have ms': "match_step E JoinOp (int (length pre) + max_rows) p b rest
      (s, prepend_rows pre l) = (x, s1, prepend_rows pre l1)"
    by (simp add: match_step_shift)
  have it: "hash_tbl_iterator (fst (s, prepend_rows pre l)) = b # rest"
    "hash_tbl_iterator (fst (s, l)) = b # rest"
    using Cons.hyps(1) sl by simp_all
  show ?case
  proof (cases x)
    case None
    with Cons.IH sl1
    have "scan_matches E JoinOp (int (length pre) + max_rows) p (s1, prepend_rows pre l1) =
          (case scan_matches E JoinOp max_rows p (s1, l1) of
             (g, s2, l2) \<Rightarrow> (g, s2, prepend_rows pre l2))"
      by simp
    with None ms ms' sl show ?thesis
      by (simp add: scan_matches_Cons[OF it(1)] scan_matches_Cons[OF it(2)])
  next
    case (Some g)
    with ms ms' sl show ?thesis
      by (simp add: scan_matches_Cons[OF it(1)] scan_matches_Cons[OF it(2)])
  qed
qed

lemma current_row_phase_shift:
  "current_row_phase E JoinOp (int (length pre) + max_rows) (s, prepend_rows pre l) =
     (case current_row_phase E JoinOp max_rows (s, l) of
        (g, s1, l1) \<Rightarrow> (g, s1, prepend_rows pre l1))"
proof (cases "current_probe_row s")
  case None
  then show ?thesis by (simp add: current_row_phase_def)
next
  case (Some p)
  obtain g s1 l1 where sm: "scan_matches E JoinOp max_rows p (s, l) = (g, s1, l1)"
    by (metis prod_cases3)
  with scan_matches_shift[where E=E and JoinOp=JoinOp and max_rows=max_rows and p=p
      and sl="(s, l)" and pre=pre]
  have "scan_matches E JoinOp (int (length pre) + max_rows) p (s, prepend_rows pre l) =
        (g, s1, prepend_rows pre l1)"
    by simp
  with Some sm show ?thesis
    by (cases g) (simp_all add: current_row_phase_def Let_def prepend_rows_def)
qed

lemma probe_iteration_shift:
  "probe_iteration E JoinOp (int (length pre) + max_rows) (s, prepend_rows pre l) =
     (case probe_iteration E JoinOp max_rows (s, l) of
        (x, s1, l1) \<Rightarrow> (x, s1, prepend_rows pre l1))"
proof -
  obtain g s1 l1 where ph: "current_row_phase E JoinOp max_rows (s, l) = (g, s1, l1)"
    by (metis prod_cases3)
  then have ph': "current_row_phase E JoinOp (int (length pre) + max_rows)
      (s, prepend_rows pre l) = (g, s1, prepend_rows pre l1)"
    by (simp add: current_row_phase_shift)
  show ?thesis
    by (cases g) (simp_all add: probe_iteration_def ph ph' split: prod.splits)
qed

lemma probe_loop_shift:
  "probe_loop E JoinOp (int (length pre) + max_rows) (fst sl, prepend_rows pre (snd sl)) =
     (case probe_loop E JoinOp max_rows sl of
        (x, s1, l1) \<Rightarrow> (x, s1, prepend_rows pre l1))"
proof (induction sl rule: probe_induct[where E=E and JoinOp=JoinOp and max_rows=max_rows])
  case (Stop sl)
  then show ?case by (cases sl) (simp add: probe_loop_stop)
next
  case (Step sl x sl1)
  obtain s l where sl: "sl = (s, l)" by (cases sl)
  obtain s1 l1 where sl1: "sl1 = (s1, l1)" by (cases sl1)
  from Step.hyps(2) sl sl1
  have it: "probe_iteration E JoinOp max_rows (s, l) = (x, s1, l1)" by simp
  then have it': "probe_iteration E JoinOp (int (length pre) + max_rows)
      (s, prepend_rows pre l) = (x, s1, prepend_rows pre l1)"
    by (simp add: probe_iteration_shift)
  have pos: "0 \<le> probe_batch_pos (fst (s, prepend_rows pre l))"
    "0 \<le> probe_batch_pos (fst (s, l))"
    using Step.hyps(1) sl by simp_all
  show ?case
  proof (cases x)
    case None
    with Step.IH sl1
    have "probe_loop E JoinOp (int (length pre) + max_rows) (s1, prepend_rows pre l1) =
          (case probe_loop E JoinOp max_rows (s1, l1) of
             (x, s2, l2) \<Rightarrow> (x, s2, prepend_rows pre l2))"
      by simp
    with None it it' sl show ?thesis
      by (simp add: probe_loop_step[OF pos(1)] probe_loop_step[OF pos(2)])
  next
    case (Some e)
    with it it' sl show ?thesis
      by (simp add: probe_loop_step[OF pos(1)] probe_loop_step[OF pos(2)])
  qed
qed

text \<open>
  A run with \<open>max_rows\<close> and a run with more capacity \<open>M\<close>, from the same state.  When the
  first ends before its batch is full, the second does the same; when the first is
  suspended by \<^verbatim>\<open>goto end\<close> with its batch full, the second goes on as a run from the state
  of the suspension does.
\<close>

lemma match_step_resume:
  assumes "match_step E JoinOp max_rows p b rest (s, l) = (x, s1, l1)"
    and "num_rows_added l < max_rows" and "max_rows \<le> M"
  shows "match_step E JoinOp M p b rest (s, l) =
           (if x = Some True \<and> max_rows < M then None else x, s1, l1)"
  using assms
  by (auto simp: match_step_def Let_def split: if_splits)

lemma match_step_current_row:
  "match_step E JoinOp max_rows p b rest sl = (x, sl1) \<Longrightarrow>
   current_probe_row (fst sl1) = current_probe_row (fst sl)"
  by (auto simp: match_step_def Let_def split: if_splits)

lemma scan_matches_current_row:
  "current_probe_row (fst (snd (scan_matches E JoinOp max_rows p sl))) =
   current_probe_row (fst sl)"
proof (induction sl rule: scan_induct[where E=E and JoinOp=JoinOp and max_rows=max_rows and p=p])
  case (Nil sl)
  then show ?case by (simp add: scan_matches_Nil)
next
  case (Cons sl b rest x sl1)
  from match_step_current_row[OF Cons.hyps(2)] Cons show ?case
    by (cases x) (simp_all add: scan_matches_Cons)
qed

lemma match_step_break:
  "match_step E JoinOp max_rows p b rest sl = (Some False, sl1) \<Longrightarrow>
   hash_tbl_iterator (fst sl1) = []"
  by (auto simp: match_step_def Let_def split: if_splits)

lemma scan_matches_end:
  "scan_matches E JoinOp max_rows p sl = (False, s1, l1) \<Longrightarrow> hash_tbl_iterator s1 = []"
proof (induction sl rule: scan_induct[where E=E and JoinOp=JoinOp and max_rows=max_rows and p=p])
  case (Nil sl)
  then show ?case by (auto simp: scan_matches_Nil)
next
  case (Cons sl b rest x sl1)
  show ?case
  proof (cases x)
    case None
    with Cons show ?thesis by (simp add: scan_matches_Cons)
  next
    case (Some g)
    with Cons.prems Cons.hyps have "g = False" "sl1 = (s1, l1)"
      by (simp_all add: scan_matches_Cons)
    with Some Cons.hyps(2) match_step_break[of E JoinOp max_rows p b rest sl sl1]
    show ?thesis by simp
  qed
qed

lemma scan_matches_resume:
  assumes "scan_matches E JoinOp max_rows p sl = (g, s1, l1)"
    and "num_rows_added (snd sl) < max_rows" and "max_rows \<le> M"
  shows "if g \<and> max_rows < M
         then scan_matches E JoinOp M p sl = scan_matches E JoinOp M p (s1, l1)
         else scan_matches E JoinOp M p sl = (g, s1, l1)"
  using assms(1,2)
proof (induction sl rule: scan_induct[where E=E and JoinOp=JoinOp and max_rows=max_rows and p=p])
  case (Nil sl)
  then show ?case by (cases sl) (auto simp: scan_matches_Nil)
next
  case (Cons sl b rest x sl2)
  obtain s l where sl: "sl = (s, l)" by (cases sl)
  obtain s2 l2 where sl2: "sl2 = (s2, l2)" by (cases sl2)
  from Cons.hyps(2) sl sl2
  have ms: "match_step E JoinOp max_rows p b rest (s, l) = (x, s2, l2)" by simp
  from Cons.prems sl have lt: "num_rows_added l < max_rows" by simp
  note msM = match_step_resume[OF ms lt assms(3)]
  note bd = match_step_bound[OF ms lt]
  have it: "hash_tbl_iterator (fst (s, l)) = b # rest" using Cons.hyps(1) sl by simp
  show ?case
  proof (cases x)
    case None
    with bd have lt2: "num_rows_added (snd sl2) < max_rows" using sl2 by simp
    from Cons.prems(1) None ms sl sl2
    have "scan_matches E JoinOp max_rows p sl2 = (g, s1, l1)"
      by (simp add: scan_matches_Cons[OF it])
    from Cons.IH[OF None this lt2] None msM sl sl2 show ?thesis
      by (auto simp: scan_matches_Cons[OF it] split: if_splits)
  next
    case (Some g')
    with Cons.prems(1) ms sl have r: "g = g'" "s1 = s2" "l1 = l2"
      by (simp_all add: scan_matches_Cons[OF it])
    show ?thesis
    proof (cases "g \<and> max_rows < M")
      case True
      with Some r msM sl show ?thesis
        by (simp add: scan_matches_Cons[OF it])
    next
      case False
      with Some r msM sl show ?thesis
        by (auto simp: scan_matches_Cons[OF it])
    qed
  qed
qed

lemma current_row_phase_current_row:
  "current_row_phase E JoinOp max_rows sl = (g, s1, l1) \<Longrightarrow>
   current_probe_row s1 = current_probe_row (fst sl)"
proof (cases "current_probe_row (fst sl)")
  case None
  assume "current_row_phase E JoinOp max_rows sl = (g, s1, l1)"
  with None show ?thesis by (auto simp: current_row_phase_def)
next
  case (Some p)
  assume a: "current_row_phase E JoinOp max_rows sl = (g, s1, l1)"
  obtain g' s' l' where sm: "scan_matches E JoinOp max_rows p sl = (g', s', l')"
    by (metis prod_cases3)
  with scan_matches_current_row[of E JoinOp max_rows p sl]
  have "current_probe_row s' = current_probe_row (fst sl)" by simp
  with a Some sm show ?thesis
    by (cases g') (auto simp: current_row_phase_def Let_def split: if_splits)
qed

lemma current_row_phase_resume:
  assumes "current_row_phase E JoinOp max_rows (s, l) = (g, s1, l1)"
    and "num_rows_added l < max_rows" and "max_rows \<le> M"
  shows "if g \<and> max_rows < M
         then current_row_phase E JoinOp M (s, l) = current_row_phase E JoinOp M (s1, l1)
         else current_row_phase E JoinOp M (s, l) = (g, s1, l1)"
proof (cases "current_probe_row s")
  case None
  with assms show ?thesis by (auto simp: current_row_phase_def)
next
  case (Some p)
  obtain g' s' l' where sm: "scan_matches E JoinOp max_rows p (s, l) = (g', s', l')"
    by (metis prod_cases3)
  from scan_matches_resume[OF sm _ assms(3)] assms(2)
  have res: "if g' \<and> max_rows < M
         then scan_matches E JoinOp M p (s, l) = scan_matches E JoinOp M p (s', l')
         else scan_matches E JoinOp M p (s, l) = (g', s', l')"
    by simp
  from scan_matches_bound[OF added_since_refl assms(2), of E JoinOp p s] sm
  have bd: "if g' then num_rows_added l' = max_rows else num_rows_added l' < max_rows"
    by simp
  from scan_matches_current_row[of E JoinOp max_rows p "(s, l)"] sm Some
  have cur': "current_probe_row s' = Some p" by simp
  show ?thesis
  proof (cases g')
    case True
    with assms(1) Some sm have r: "g" "s1 = s'" "l1 = l'"
      by (simp_all add: current_row_phase_def)
    show ?thesis
    proof (cases "max_rows < M")
      case lt: True
      with True res r Some cur' show ?thesis
        by (simp add: current_row_phase_def)
    next
      case False
      with True res r Some show ?thesis
        by (simp add: current_row_phase_def)
    qed
  next
    case False
    with res have smM: "scan_matches E JoinOp M p (s, l) = (False, s', l')" by simp
    from False sm have end': "hash_tbl_iterator s' = []" by (auto dest: scan_matches_end)
    from False bd have lt': "num_rows_added l' < max_rows" by simp
    show ?thesis
    proof (cases "g \<and> max_rows < M")
      case gM: True
      with assms(1) Some sm False
      have r: "s1 = s'\<lparr>matched_probe := True\<rparr>" "num_rows_added l1 = num_rows_added l' + 1"
        "l1 = l'\<lparr>num_rows_added := num_rows_added l' + 1,
                  row_slots := row_slots l' @ [CreateOutputRow p None]\<rparr>"
        "num_rows_added l' + 1 = max_rows"
        "(JoinOp = LEFT_ANTI_JOIN \<or> JoinOp = LEFT_OUTER_JOIN \<or> JoinOp = FULL_OUTER_JOIN)"
        "\<not> matched_probe s'" "EvalConjuncts (conjunct_ctxs E) (CreateOutputRow p None)"
        by (auto simp: current_row_phase_def Let_def split: if_splits)
      have lhs: "current_row_phase E JoinOp M (s, l) = (False, s1, l1)"
        using Some smM r gM by (simp add: current_row_phase_def Let_def)
      have "scan_matches E JoinOp M p (s1, l1) = (False, s1, l1)"
        using end' r(1) by (simp add: scan_matches_Nil)
      then have rhs: "current_row_phase E JoinOp M (s1, l1) = (False, s1, l1)"
        using cur' r(1) by (simp add: current_row_phase_def)
      from lhs rhs gM show ?thesis by simp
    next
      case ngM: False
      show ?thesis
      proof (cases g)
        case True
        with ngM have eq: "M = max_rows" using assms(3) by simp
        with assms(1) ngM show ?thesis by simp
      next
        case g: False
        with assms(1) Some sm False lt' assms(3) smM show ?thesis
          by (auto simp: current_row_phase_def Let_def split: if_splits)
      qed
    qed
  qed
qed

lemma probe_iteration_resume:
  assumes "probe_iteration E JoinOp max_rows (s, l) = (x, s1, l1)"
    and "num_rows_added l < max_rows" and "max_rows \<le> M"
  shows "if num_rows_added l1 = max_rows \<and> max_rows < M
         then probe_iteration E JoinOp M (s, l) = probe_iteration E JoinOp M (s1, l1) \<and>
              probe_batch_pos s1 = probe_batch_pos s
         else probe_iteration E JoinOp M (s, l) = (x, s1, l1)"
proof -
  obtain g s' l' where ph: "current_row_phase E JoinOp max_rows (s, l) = (g, s', l')"
    by (metis prod_cases3)
  note res = current_row_phase_resume[OF ph assms(2,3)]
  from current_row_phase_bound[OF added_since_refl assms(2) ph]
  have bd: "if g then num_rows_added l' = max_rows else num_rows_added l' < max_rows"
    by simp
  show ?thesis
  proof (cases g)
    case True
    with assms(1) ph have r: "x = Some goto_end" "s1 = s'" "l1 = l'"
      by (simp_all add: probe_iteration_def)
    from current_row_phase_frame[OF ph] have pos: "probe_batch_pos s' = probe_batch_pos s"
      by simp
    show ?thesis
    proof (cases "max_rows < M")
      case lt: True
      with True res have "current_row_phase E JoinOp M (s, l) =
          current_row_phase E JoinOp M (s', l')" by simp
      then have "probe_iteration E JoinOp M (s, l) = probe_iteration E JoinOp M (s', l')"
        by (simp add: probe_iteration_def)
      with r True bd lt pos show ?thesis by simp
    next
      case False
      with True res have "current_row_phase E JoinOp M (s, l) = (True, s', l')" by simp
      with r False show ?thesis by (simp add: probe_iteration_def)
    qed
  next
    case False
    with res have phM: "current_row_phase E JoinOp M (s, l) = (False, s', l')" by simp
    from False assms(1) ph have "l1 = l'"
      by (auto simp: probe_iteration_def split: prod.splits)
    with False bd have "num_rows_added l1 \<noteq> max_rows" by simp
    moreover from False assms(1) ph phM
    have "probe_iteration E JoinOp M (s, l) = (x, s1, l1)"
      by (simp add: probe_iteration_def)
    ultimately show ?thesis by simp
  qed
qed

lemma probe_loop_resume:
  assumes "probe_loop E JoinOp max_rows sl = (x, s1, l1)"
    and "num_rows_added (snd sl) < max_rows" and "max_rows \<le> M"
  shows "if num_rows_added l1 = max_rows \<and> max_rows < M
         then probe_loop E JoinOp M sl = probe_loop E JoinOp M (s1, l1)
         else probe_loop E JoinOp M sl = (x, s1, l1)"
  using assms(1,2)
proof (induction sl rule: probe_induct[where E=E and JoinOp=JoinOp and max_rows=max_rows])
  case (Stop sl)
  then show ?case by (cases sl) (auto simp: probe_loop_stop)
next
  case (Step sl y sl2)
  obtain s l where sl: "sl = (s, l)" by (cases sl)
  obtain s2 l2 where sl2: "sl2 = (s2, l2)" by (cases sl2)
  from Step.hyps(2) sl sl2
  have it: "probe_iteration E JoinOp max_rows (s, l) = (y, s2, l2)" by simp
  from Step.prems sl have lt: "num_rows_added l < max_rows" by simp
  note res = probe_iteration_resume[OF it lt assms(3)]
  note bd = probe_iteration_bound[OF added_since_refl lt it]
  have pos: "0 \<le> probe_batch_pos (fst (s, l))" using Step.hyps(1) sl by simp
  show ?case
  proof (cases y)
    case None
    with bd have lt2: "num_rows_added (snd sl2) < max_rows" using sl2 by simp
    with res sl2 have itM: "probe_iteration E JoinOp M (s, l) = (None, s2, l2)"
      using None by simp
    from Step.prems(1) None it sl sl2
    have "probe_loop E JoinOp max_rows sl2 = (x, s1, l1)"
      by (simp add: probe_loop_step[OF pos])
    from Step.IH[OF None this lt2] itM sl sl2 show ?thesis
      by (auto simp: probe_loop_step[OF pos] split: if_splits)
  next
    case (Some e)
    with Step.prems(1) it sl have r: "x = e" "s1 = s2" "l1 = l2"
      by (simp_all add: probe_loop_step[OF pos])
    show ?thesis
    proof (cases "num_rows_added l1 = max_rows \<and> max_rows < M")
      case True
      with res r have eq: "probe_iteration E JoinOp M (s, l) = probe_iteration E JoinOp M (s1, l1)"
        and p1: "probe_batch_pos s1 = probe_batch_pos s"
        by simp_all
      from p1 pos have pos1: "0 \<le> probe_batch_pos (fst (s1, l1))" by simp
      from eq True sl show ?thesis
        by (simp add: probe_loop_step[OF pos] probe_loop_step[OF pos1])
    next
      case False
      with res r have "probe_iteration E JoinOp M (s, l) = (y, s1, l1)" by auto
      with False Some r sl show ?thesis
        by (auto simp: probe_loop_step[OF pos])
    qed
  qed
qed

text \<open>When the loop ends with room left in the batch, the probe batch is exhausted.\<close>

lemma next_probe_row_exhausted:
  "next_probe_row E s = (Some goto_end, s') \<Longrightarrow> current_probe_row s' = None"
  unfolding next_probe_row_def Let_def
  by (auto simp: AppendRow_def split: option.splits prod.splits bool.splits if_splits)

lemma probe_loop_exhausted:
  assumes "probe_loop E JoinOp max_rows sl = (goto_end, s1, l1)"
    and "num_rows_added (snd sl) < max_rows" and "num_rows_added l1 \<noteq> max_rows"
  shows "probe_batch_pos s1 < 0 \<or> current_probe_row s1 = None"
  using assms(1,2)
proof (induction sl rule: probe_induct[where E=E and JoinOp=JoinOp and max_rows=max_rows])
  case (Stop sl)
  then show ?case by (cases sl) (auto simp: probe_loop_stop)
next
  case (Step sl y sl2)
  obtain s l where sl: "sl = (s, l)" by (cases sl)
  obtain s2 l2 where sl2: "sl2 = (s2, l2)" by (cases sl2)
  from Step.hyps(2) sl sl2
  have it: "probe_iteration E JoinOp max_rows (s, l) = (y, s2, l2)" by simp
  from Step.prems sl have lt: "num_rows_added l < max_rows" by simp
  note bd = probe_iteration_bound[OF added_since_refl lt it]
  have pos: "0 \<le> probe_batch_pos (fst (s, l))" using Step.hyps(1) sl by simp
  show ?case
  proof (cases y)
    case None
    with bd have lt2: "num_rows_added (snd sl2) < max_rows" using sl2 by simp
    from Step.prems(1) None it sl sl2
    have "probe_loop E JoinOp max_rows sl2 = (goto_end, s1, l1)"
      by (simp add: probe_loop_step[OF pos])
    from Step.IH[OF None this lt2] show ?thesis .
  next
    case (Some e)
    with Step.prems(1) it sl have r: "e = goto_end" "s1 = s2" "l1 = l2"
      by (simp_all add: probe_loop_step[OF pos])
    obtain g s' l' where ph: "current_row_phase E JoinOp max_rows (s, l) = (g, s', l')"
      by (metis prod_cases3)
    from current_row_phase_bound[OF added_since_refl lt ph]
    have bd': "if g then num_rows_added l' = max_rows else num_rows_added l' < max_rows"
      by simp
    show ?thesis
    proof (cases g)
      case True
      with it ph r have "l1 = l'" by (simp add: probe_iteration_def)
      with True bd' assms(3) show ?thesis by simp
    next
      case False
      with it ph Some r have "next_probe_row E s' = (Some goto_end, s1)"
        by (auto simp: probe_iteration_def split: prod.splits)
      then show ?thesis by (auto dest: next_probe_row_exhausted)
    qed
  qed
qed

lemma probe_loop_full:
  assumes "probe_loop E JoinOp max_rows sl = (x, s1, l1)"
    and "num_rows_added (snd sl) < max_rows" and "num_rows_added l1 = max_rows"
  shows "x = goto_end \<and> 0 \<le> probe_batch_pos s1 \<and> current_probe_row s1 \<noteq> None"
  using assms(1,2)
proof (induction sl rule: probe_induct[where E=E and JoinOp=JoinOp and max_rows=max_rows])
  case (Stop sl)
  with assms(3) show ?case by (cases sl) (auto simp: probe_loop_stop)
next
  case (Step sl y sl2)
  obtain s l where sl: "sl = (s, l)" by (cases sl)
  obtain s2 l2 where sl2: "sl2 = (s2, l2)" by (cases sl2)
  from Step.hyps(2) sl sl2
  have it: "probe_iteration E JoinOp max_rows (s, l) = (y, s2, l2)" by simp
  from Step.prems sl have lt: "num_rows_added l < max_rows" by simp
  note bd = probe_iteration_bound[OF added_since_refl lt it]
  have pos: "0 \<le> probe_batch_pos (fst (s, l))" using Step.hyps(1) sl by simp
  show ?case
  proof (cases y)
    case None
    with bd have lt2: "num_rows_added (snd sl2) < max_rows" using sl2 by simp
    from Step.prems(1) None it sl sl2
    have "probe_loop E JoinOp max_rows sl2 = (x, s1, l1)"
      by (simp add: probe_loop_step[OF pos])
    from Step.IH[OF None this lt2] show ?thesis .
  next
    case (Some e)
    with Step.prems(1) it sl have r: "x = e" "s1 = s2" "l1 = l2"
      by (simp_all add: probe_loop_step[OF pos])
    obtain g s' l' where ph: "current_row_phase E JoinOp max_rows (s, l) = (g, s', l')"
      by (metis prod_cases3)
    from current_row_phase_bound[OF added_since_refl lt ph]
    have bd': "if g then num_rows_added l' = max_rows else num_rows_added l' < max_rows"
      by simp
    show ?thesis
    proof (cases g)
      case True
      with it ph Some r have e: "x = goto_end" "s1 = s'"
        by (simp_all add: probe_iteration_def)
      from current_row_phase_frame[OF ph] pos e
      have p: "0 \<le> probe_batch_pos s1" by simp
      have "current_probe_row s \<noteq> None"
      proof
        assume "current_probe_row s = None"
        with ph True show False by (simp add: current_row_phase_def)
      qed
      with current_row_phase_current_row[OF ph] e have "current_probe_row s1 \<noteq> None"
        by simp
      with e p show ?thesis by simp
    next
      case False
      with it ph have "l2 = l'" by (auto simp: probe_iteration_def split: prod.splits)
      with False bd' r assms(3) show ?thesis by simp
    qed
  qed
qed

lemma probe_loop_keeps_returned:
  assumes "probe_loop E JoinOp max_rows (s, l) = (x, s1, l1)"
  shows "num_rows_returned s1 = num_rows_returned s"
proof -
  from probe_loop_returned[where E=E and JoinOp=JoinOp and max_rows=max_rows
      and sl="(s, l)" and v="num_rows_returned s"] assms
  have "s1\<lparr>num_rows_returned := num_rows_returned s\<rparr> = s1" by simp
  then have "num_rows_returned (s1\<lparr>num_rows_returned := num_rows_returned s\<rparr>) =
             num_rows_returned s1"
    by simp
  then show ?thesis by simp
qed

lemma added_since_empty:
  "added_since \<lparr>num_rows_added = 0, row_slots = []\<rparr> l \<longleftrightarrow>
   num_rows_added l = int (length (row_slots l))"
  by (auto simp: added_since_def)

lemma probe_loop_counts:
  assumes "probe_loop E JoinOp max_rows (s, \<lparr>num_rows_added = 0, row_slots = []\<rparr>) = (x, s1, l1)"
    and "0 < max_rows"
  shows "num_rows_added l1 = int (length (row_slots l1)) \<and> num_rows_added l1 \<le> max_rows"
  using probe_loop_bound[OF added_since_refl, of "\<lparr>num_rows_added = 0, row_slots = []\<rparr>"
      max_rows E JoinOp s] assms
  by (simp add: added_since_empty)

lemma probe_row_by_row_unbounded:
  assumes "probe_loop E JoinOp C (s, \<lparr>num_rows_added = 0, row_slots = []\<rparr>) = (goto_end, sF, lF)"
    and "0 < C" and "num_rows_added lF < C" and "length (row_slots lF) < n"
  shows "probe_row_by_row E JoinOp n s =
           Some (OK, row_slots lF,
                 sF\<lparr>num_rows_returned := num_rows_returned sF + num_rows_added lF\<rparr>)"
  using assms
proof (induction n arbitrary: s C sF lF)
  case 0
  then show ?case by simp
next
  case (Suc n)
  let ?l0 = "\<lparr>num_rows_added = 0, row_slots = []\<rparr>"
  let ?b1 = "\<lparr>capacity = 1, tuple_rows = []\<rparr> :: out_row RowBatch"
  obtain x1 s1 l1 where it1: "probe_loop E JoinOp 1 (s, ?l0) = (x1, s1, l1)"
    by (metis prod_cases3)
  from probe_loop_counts[OF it1]
  have c1: "num_rows_added l1 = int (length (row_slots l1))" "num_rows_added l1 \<le> 1"
    by simp_all
  from probe_loop_counts[OF Suc.prems(1,2)]
  have cF: "num_rows_added lF = int (length (row_slots lF))" by simp
  have res: "if num_rows_added l1 = 1 \<and> 1 < C
         then probe_loop E JoinOp C (s, ?l0) = probe_loop E JoinOp C (s1, l1)
         else probe_loop E JoinOp C (s, ?l0) = (x1, s1, l1)"
    using probe_loop_resume[OF it1, of C] Suc.prems(2) by simp
  show ?case
  proof (cases "num_rows_added l1 = 1 \<and> 1 < C")
    case True
    from probe_loop_full[OF it1] True
    have full: "x1 = goto_end" "0 \<le> probe_batch_pos s1" "current_probe_row s1 \<noteq> None"
      by simp_all
    from True res Suc.prems(1)
    have big: "probe_loop E JoinOp C (s1, l1) = (goto_end, sF, lF)" by simp
    from True c1 obtain r1 where r1: "row_slots l1 = [r1]"
      by (cases "row_slots l1") auto
    with True have l1: "l1 = prepend_rows [r1] ?l0"
      by (cases l1) (simp add: prepend_rows_def)
    obtain x2 sF2 lF2 where it2: "probe_loop E JoinOp (C - 1) (s1, ?l0) = (x2, sF2, lF2)"
      by (metis prod_cases3)
    from probe_loop_shift[where E=E and JoinOp=JoinOp and pre="[r1]" and max_rows="C - 1"
        and sl="(s1, ?l0)"] it2 l1
    have "probe_loop E JoinOp C (s1, l1) = (x2, sF2, prepend_rows [r1] lF2)" by simp
    with big have r2: "x2 = goto_end" "sF2 = sF" "lF = prepend_rows [r1] lF2" by simp_all
    let ?v = "num_rows_returned s1 + 1"
    from probe_loop_returned[where E=E and JoinOp=JoinOp and max_rows="C - 1"
        and sl="(s1, ?l0)" and v="?v"] it2 r2
    have it2': "probe_loop E JoinOp (C - 1) (s1\<lparr>num_rows_returned := ?v\<rparr>, ?l0) =
        (goto_end, sF\<lparr>num_rows_returned := ?v\<rparr>, lF2)"
      by simp
    from r2(3) have lF: "num_rows_added lF = 1 + num_rows_added lF2"
      "row_slots lF = r1 # row_slots lF2"
      by (simp_all add: prepend_rows_def)
    have "probe_row_by_row E JoinOp n (s1\<lparr>num_rows_returned := ?v\<rparr>) =
        Some (OK, row_slots lF2,
              sF\<lparr>num_rows_returned := ?v\<rparr>
                \<lparr>num_rows_returned :=
                   num_rows_returned (sF\<lparr>num_rows_returned := ?v\<rparr>) + num_rows_added lF2\<rparr>)"
      using True Suc.prems(3,4) lF by (intro Suc.IH[OF it2']) simp_all
    moreover from probe_loop_keeps_returned[OF big]
    have "num_rows_returned sF = num_rows_returned s1" .
    ultimately have rec: "probe_row_by_row E JoinOp n (s1\<lparr>num_rows_returned := ?v\<rparr>) =
        Some (OK, row_slots lF2,
              sF\<lparr>num_rows_returned := num_rows_returned sF + num_rows_added lF\<rparr>)"
      using lF by simp
    have call: "ProcessProbeBatch E JoinOp ?b1 s =
        Some (OK, \<lparr>capacity = 1, tuple_rows = [r1]\<rparr>, s1\<lparr>num_rows_returned := ?v\<rparr>)"
      using it1 full(1) True r1
      by (simp add: ProcessProbeBatch_def Let_def num_rows_def CommitRows_def)
    have "\<not> probe_exhausted (s1\<lparr>num_rows_returned := ?v\<rparr>)"
      using full by (simp add: probe_exhausted_def)
    with call rec lF show ?thesis by simp
  next
    case False
    with res Suc.prems(1) have r: "x1 = goto_end" "s1 = sF" "l1 = lF" by simp_all
    have ne: "num_rows_added l1 \<noteq> 1"
    proof
      assume "num_rows_added l1 = 1"
      with False r Suc.prems(2,3) show False by simp
    qed
    with c1 have "length (row_slots l1) = 0" by linarith
    with c1 have zero: "num_rows_added l1 = 0" "row_slots l1 = []" by simp_all
    from probe_loop_exhausted[OF _ _ ne, of E JoinOp "(s, ?l0)" s1] it1 r
    have "probe_exhausted s1" by (simp add: probe_exhausted_def)
    then have ex: "probe_exhausted (s1\<lparr>num_rows_returned := num_rows_returned s1 + 0\<rparr>)"
      by (simp add: probe_exhausted_def)
    have call: "ProcessProbeBatch E JoinOp ?b1 s =
        Some (OK, \<lparr>capacity = 1, tuple_rows = []\<rparr>,
              s1\<lparr>num_rows_returned := num_rows_returned s1 + 0\<rparr>)"
      using it1 r(1) zero
      by (simp add: ProcessProbeBatch_def Let_def num_rows_def CommitRows_def)
    from call ex zero r show ?thesis by simp
  qed
qed

text \<open>
  C1.  (1) When a single call on an empty output batch of capacity \<open>C\<close> returns \<open>OK\<close>
  without filling the batch (the capacity did not bound it), the calls on batches of
  capacity 1, repeated until the probe input is exhausted, all return \<open>OK\<close>, need no more
  than one call per row and one more, produce the same rows in the same order, and leave
  the node in the same state, with the probe input exhausted.  (2) At the \<^verbatim>\<open>goto end\<close> of
  line 84 the row of the candidate has been written and the match iterator stands at the
  candidate behind it (at its end for a left-semi join).  (3) A run that is suspended with
  its batch full leaves the state and the locals from which a run with more capacity goes
  on exactly as it does from the start.
\<close>

theorem capacity_1_calls_equal_unbounded_call:
  "(0 < C \<and>
    ProcessProbeBatch E JoinOp \<lparr>capacity = C, tuple_rows = []\<rparr> s = Some (OK, out_batch, s') \<and>
    \<not> AtCapacity out_batch \<and> length (tuple_rows out_batch) < n \<longrightarrow>
      probe_row_by_row E JoinOp n s = Some (OK, tuple_rows out_batch, s') \<and>
      probe_exhausted s') \<and>
   (match_step E JoinOp' max_rows p b rest (t, l) = (Some True, t', l') \<longrightarrow>
      hash_tbl_iterator t' = (if JoinOp' = LEFT_SEMI_JOIN then [] else rest) \<and>
      l' = add_row (CreateOutputRow p (Some b)) l \<and> num_rows_added l' = max_rows) \<and>
   (probe_loop E JoinOp'' m (u, k) = (x, u1, k1) \<and> num_rows_added k < m \<and>
    num_rows_added k1 = m \<and> m < M \<longrightarrow>
      probe_loop E JoinOp'' M (u, k) = probe_loop E JoinOp'' M (u1, k1))"
proof -
  let ?l0 = "\<lparr>num_rows_added = 0, row_slots = []\<rparr>"
  have p1: "probe_row_by_row E JoinOp n s = Some (OK, tuple_rows out_batch, s') \<and>
      probe_exhausted s'"
    if a: "0 < C \<and>
      ProcessProbeBatch E JoinOp \<lparr>capacity = C, tuple_rows = []\<rparr> s = Some (OK, out_batch, s') \<and>
      \<not> AtCapacity out_batch \<and> length (tuple_rows out_batch) < n"
  proof -
    obtain y sF lF where pl: "probe_loop E JoinOp C (s, ?l0) = (y, sF, lF)"
      by (metis prod_cases3)
    from a have C: "0 < C" by simp
    from probe_loop_counts[OF pl C]
    have cF: "num_rows_added lF = int (length (row_slots lF))" "num_rows_added lF \<le> C"
      by simp_all
    have y: "y = goto_end"
    proof (cases y)
      case return_status
      with pl probe_loop_return[of E JoinOp C "(s, ?l0)" sF lF] a show ?thesis
        by (auto simp: ProcessProbeBatch_def Let_def num_rows_def)
    next
      case undefined_behaviour
      with pl a show ?thesis by (simp add: ProcessProbeBatch_def Let_def num_rows_def)
    qed simp
    with pl a cF have ob: "out_batch = \<lparr>capacity = C, tuple_rows = row_slots lF\<rparr>"
      and s': "s' = sF\<lparr>num_rows_returned := num_rows_returned sF + num_rows_added lF\<rparr>"
      by (simp_all add: ProcessProbeBatch_def Let_def num_rows_def CommitRows_def)
    with a cF have lt: "num_rows_added lF < C" by (simp add: AtCapacity_def num_rows_def)
    from a ob have n: "length (row_slots lF) < n" by simp
    from pl y have pl': "probe_loop E JoinOp C (s, ?l0) = (goto_end, sF, lF)" by simp
    from probe_row_by_row_unbounded[OF pl' C lt n] ob s'
    have "probe_row_by_row E JoinOp n s = Some (OK, tuple_rows out_batch, s')" by simp
    moreover from probe_loop_exhausted[OF pl' _ ] lt C s'
    have "probe_exhausted s'" by (simp add: probe_exhausted_def)
    ultimately show ?thesis by simp
  qed
  have p2: "hash_tbl_iterator t' = (if JoinOp' = LEFT_SEMI_JOIN then [] else rest) \<and>
      l' = add_row (CreateOutputRow p (Some b)) l \<and> num_rows_added l' = max_rows"
    if "match_step E JoinOp' max_rows p b rest (t, l) = (Some True, t', l')"
    using that by (auto simp: match_step_def Let_def add_row_def split: if_splits)
  have p3: "probe_loop E JoinOp'' M (u, k) = probe_loop E JoinOp'' M (u1, k1)"
    if "probe_loop E JoinOp'' m (u, k) = (x, u1, k1) \<and> num_rows_added k < m \<and>
        num_rows_added k1 = m \<and> m < M"
    using that probe_loop_resume[of E JoinOp'' m "(u, k)" x u1 k1 M] by simp
  from p1 p2 p3 show ?thesis by blast
qed

theorem capacity_1_calls_equal_unbounded_call_witness:
  "ProcessProbeBatch example_env LEFT_OUTER_JOIN \<lparr>capacity = 8, tuple_rows = []\<rparr>
     (example_node [1, 3]) =
     Some (OK, \<lparr>capacity = 8, tuple_rows = [(1, Some 11), (1, Some 13), (3, None)]\<rparr>,
           (example_node [1, 3])\<lparr>probe_batch_pos := 2, matched_probe := True,
              num_rows_returned := 3\<rparr>) \<and>
   \<not> AtCapacity \<lparr>capacity = 8,
        tuple_rows = [(1 :: nat, Some (11 :: nat)), (1, Some 13), (3, None)]\<rparr> \<and>
   probe_row_by_row example_env LEFT_OUTER_JOIN (Suc (Suc (Suc (Suc 0)))) (example_node [1, 3]) =
     Some (OK, [(1, Some 11), (1, Some 13), (3, None)],
           (example_node [1, 3])\<lparr>probe_batch_pos := 2, matched_probe := True,
              num_rows_returned := 3\<rparr>) \<and>
   match_step example_env INNER_JOIN 1 1 11 [12, 13]
     ((example_node [1])\<lparr>current_probe_row := Some 1, probe_batch_pos := 1,
         hash_tbl_iterator := [11, 12, 13]\<rparr>, \<lparr>num_rows_added = 0, row_slots = []\<rparr>) =
     (Some True,
      (example_node [1])\<lparr>current_probe_row := Some 1, probe_batch_pos := 1,
         hash_tbl_iterator := [12, 13], matched_probe := True\<rparr>,
      \<lparr>num_rows_added = 1, row_slots = [(1, Some 11)]\<rparr>) \<and>
   probe_loop example_env LEFT_OUTER_JOIN 1
     (example_node [1, 3], \<lparr>num_rows_added = 0, row_slots = []\<rparr>) =
     (goto_end,
      (example_node [1, 3])\<lparr>current_probe_row := Some 1, probe_batch_pos := 1,
         hash_tbl_iterator := [12, 13], matched_probe := True\<rparr>,
      \<lparr>num_rows_added = 1, row_slots = [(1, Some 11)]\<rparr>) \<and>
   probe_loop example_env LEFT_OUTER_JOIN 8
     (example_node [1, 3], \<lparr>num_rows_added = 0, row_slots = []\<rparr>) =
   probe_loop example_env LEFT_OUTER_JOIN 8
     ((example_node [1, 3])\<lparr>current_probe_row := Some 1, probe_batch_pos := 1,
         hash_tbl_iterator := [12, 13], matched_probe := True\<rparr>,
      \<lparr>num_rows_added = 1, row_slots = [(1, Some 11)]\<rparr>)"
  using capacity_1_calls_equal_unbounded_call[where E=example_env and JoinOp=LEFT_OUTER_JOIN
      and C=8 and s="example_node [1, 3]"
      and out_batch="\<lparr>capacity = 8, tuple_rows = [(1, Some 11), (1, Some 13), (3, None)]\<rparr>"
      and s'="(example_node [1, 3])\<lparr>probe_batch_pos := 2, matched_probe := True,
              num_rows_returned := 3\<rparr>"
      and n="Suc (Suc (Suc (Suc 0)))"
      and JoinOp'=INNER_JOIN and max_rows=1 and p=1 and b=11 and rest="[12, 13]"
      and t="(example_node [1])\<lparr>current_probe_row := Some 1, probe_batch_pos := 1,
         hash_tbl_iterator := [11, 12, 13]\<rparr>"
      and l="\<lparr>num_rows_added = 0, row_slots = []\<rparr>"
      and t'="(example_node [1])\<lparr>current_probe_row := Some 1, probe_batch_pos := 1,
         hash_tbl_iterator := [12, 13], matched_probe := True\<rparr>"
      and l'="\<lparr>num_rows_added = 1, row_slots = [(1, Some 11)]\<rparr>"
      and JoinOp''=LEFT_OUTER_JOIN and m=1 and u="example_node [1, 3]"
      and k="\<lparr>num_rows_added = 0, row_slots = []\<rparr>" and x=goto_end
      and ?u1.0="(example_node [1, 3])\<lparr>current_probe_row := Some 1, probe_batch_pos := 1,
         hash_tbl_iterator := [12, 13], matched_probe := True\<rparr>"
      and ?k1.0="\<lparr>num_rows_added = 1, row_slots = [(1, Some 11)]\<rparr>" and M=8]
  by (simp add: run_simps probe_exhausted_def add_row_def)

section \<open>The output of a call\<close>

lemma spec_row_output_Nil:
  "spec_row_output E JoinOp p [] matched =
     (if emits_unmatched JoinOp \<and> \<not> matched \<and>
         EvalConjuncts (conjunct_ctxs E) (CreateOutputRow p None)
      then [CreateOutputRow p None] else [])"
  by (simp add: spec_row_output_def)

lemma spec_row_output_skip:
  "\<not> join_match E p b \<Longrightarrow>
   spec_row_output E JoinOp p (b # rest) matched = spec_row_output E JoinOp p rest matched"
  by (simp add: spec_row_output_def)

lemma spec_row_output_anti:
  "join_match E p b \<Longrightarrow> spec_row_output E LEFT_ANTI_JOIN p (b # rest) matched = []"
  by (simp add: spec_row_output_def)

lemma spec_row_output_semi:
  "join_match E p b \<Longrightarrow>
   spec_row_output E LEFT_SEMI_JOIN p (b # rest) matched =
     (if EvalConjuncts (conjunct_ctxs E) (CreateOutputRow p (Some b))
      then [CreateOutputRow p (Some b)] else [])"
  by (simp add: spec_row_output_def emits_unmatched_def)

lemma spec_row_output_match:
  "join_match E p b \<Longrightarrow> JoinOp \<noteq> LEFT_ANTI_JOIN \<Longrightarrow> JoinOp \<noteq> LEFT_SEMI_JOIN \<Longrightarrow>
   spec_row_output E JoinOp p (b # rest) matched =
     (if EvalConjuncts (conjunct_ctxs E) (CreateOutputRow p (Some b))
      then [CreateOutputRow p (Some b)] else []) @
     spec_row_output E JoinOp p rest True"
  by (simp add: spec_row_output_def)

lemma match_step_row_inv:
  assumes "row_inv E JoinOp p s0 outp em sl" "hash_tbl_iterator (fst sl) = b # rest"
    "match_step E JoinOp max_rows p b rest sl = (x, sl1)"
  shows "row_inv E JoinOp p s0 outp em sl1 \<and>
         (x = Some True \<longrightarrow> num_rows_added (snd sl1) = max_rows) \<and>
         (x = Some False \<longrightarrow> hash_tbl_iterator (fst sl1) = [] \<and> matched_probe (fst sl1))"
proof (cases "join_match E p b")
  case False
  with assms show ?thesis
    by (auto simp: match_step_def Let_def join_match_def[symmetric] row_inv_def
        spec_row_output_skip)
next
  case True
  show ?thesis
  proof (cases "JoinOp = LEFT_ANTI_JOIN")
    case anti: True
    with True assms show ?thesis
      by (auto simp: match_step_def Let_def join_match_def[symmetric] row_inv_def
          spec_row_output_anti spec_row_output_Nil)
  next
    case False
    show ?thesis
    proof (cases "JoinOp = LEFT_SEMI_JOIN")
      case semi: True
      with True assms show ?thesis
        by (auto simp: match_step_def Let_def join_match_def[symmetric] row_inv_def
            spec_row_output_semi spec_row_output_Nil emits_unmatched_def split: if_splits)
    next
      case nsemi: False
      from True False nsemi assms show ?thesis
        by (auto simp: match_step_def Let_def join_match_def[symmetric] row_inv_def
            spec_row_output_match split: if_splits)
    qed
  qed
qed


lemma scan_matches_row_inv:
  assumes "row_inv E JoinOp p s0 outp em sl"
    and "scan_matches E JoinOp max_rows p sl = (g, sl1)"
  shows "row_inv E JoinOp p s0 outp em sl1 \<and>
         (g \<longrightarrow> num_rows_added (snd sl1) = max_rows) \<and>
         (\<not> g \<longrightarrow> hash_tbl_iterator (fst sl1) = [])"
proof -
  have "(\<lambda>res. row_inv E JoinOp p s0 outp em (snd res) \<and>
               (fst res \<longrightarrow> num_rows_added (snd (snd res)) = max_rows) \<and>
               (\<not> fst res \<longrightarrow> hash_tbl_iterator (fst (snd res)) = []))
        (scan_matches E JoinOp max_rows p sl)"
  proof (rule scan_matches_rule[where Q="row_inv E JoinOp p s0 outp em"])
    show "row_inv E JoinOp p s0 outp em sl" by (rule assms(1))
  next
    fix sl :: "PartitionedHashJoinNode \<times> probe_locals"
    assume "row_inv E JoinOp p s0 outp em sl" "hash_tbl_iterator (fst sl) = []"
    then show "row_inv E JoinOp p s0 outp em (snd (False, sl)) \<and>
               (fst (False, sl) \<longrightarrow> num_rows_added (snd (snd (False, sl))) = max_rows) \<and>
               (\<not> fst (False, sl) \<longrightarrow> hash_tbl_iterator (fst (snd (False, sl))) = [])"
      by simp
  next
    fix sl :: "PartitionedHashJoinNode \<times> probe_locals" and b rest x sl1
    assume q: "row_inv E JoinOp p s0 outp em sl" "hash_tbl_iterator (fst sl) = b # rest"
      "match_step E JoinOp max_rows p b rest sl = (x, sl1)"
    from match_step_row_inv[OF q]
    show "case x of None \<Rightarrow> row_inv E JoinOp p s0 outp em sl1
          | Some g \<Rightarrow> row_inv E JoinOp p s0 outp em (snd (g, sl1)) \<and>
               (fst (g, sl1) \<longrightarrow> num_rows_added (snd (snd (g, sl1))) = max_rows) \<and>
               (\<not> fst (g, sl1) \<longrightarrow> hash_tbl_iterator (fst (snd (g, sl1))) = [])"
      by (cases x) auto
  qed
  with assms(2) show ?thesis by simp
qed

text \<open>
  Lines 52-101 for the current probe row \<open>p\<close>: they keep the invariant; they leave by
  \<^verbatim>\<open>goto end\<close> only with the batch full, and otherwise with nothing left to come of the row.
\<close>

lemma current_row_phase_row_inv:
  assumes "row_inv E JoinOp p s0 outp em sl"
    and "current_row_phase E JoinOp max_rows sl = (g, sl1)"
  shows "row_inv E JoinOp p s0 outp em sl1 \<and>
         (g \<longrightarrow> num_rows_added (snd sl1) = max_rows) \<and>
         (\<not> g \<longrightarrow> hash_tbl_iterator (fst sl1) = [] \<and>
                 spec_row_output E JoinOp p [] (matched_probe (fst sl1)) = [])"
proof -
  from assms(1) have cur: "current_probe_row (fst sl) = Some p" by (simp add: row_inv_def)
  obtain g1 s1 l1 where sm: "scan_matches E JoinOp max_rows p sl = (g1, s1, l1)"
    by (metis prod_cases3)
  from scan_matches_row_inv[OF assms(1) sm]
  have inv: "row_inv E JoinOp p s0 outp em (s1, l1)"
    and full: "g1 \<longrightarrow> num_rows_added l1 = max_rows"
    and nil: "\<not> g1 \<longrightarrow> hash_tbl_iterator s1 = []"
    by simp_all
  show ?thesis
  proof (cases g1)
    case True
    with cur sm assms(2) inv full show ?thesis
      by (auto simp: current_row_phase_def)
  next
    case False
    with nil have it: "hash_tbl_iterator s1 = []" by simp
    show ?thesis
    proof (cases "emits_unmatched JoinOp \<and> \<not> matched_probe s1 \<and>
                   EvalConjuncts (conjunct_ctxs E) (CreateOutputRow p None)")
      case emit: True
      with False cur sm assms(2)
      have res: "g = (num_rows_added l1 + 1 = max_rows)"
         "sl1 = (s1\<lparr>matched_probe := True\<rparr>,
                 l1\<lparr>num_rows_added := num_rows_added l1 + 1,
                    row_slots := row_slots l1 @ [CreateOutputRow p None]\<rparr>)"
        by (auto simp: current_row_phase_def emits_unmatched_def Let_def)
      from inv it emit have "row_inv E JoinOp p s0 outp em sl1"
        by (auto simp: res row_inv_def spec_row_output_Nil)
      with res it show ?thesis by (auto simp: spec_row_output_Nil)
    next
      case noemit: False
      with False cur sm assms(2) have res: "g = False" "sl1 = (s1, l1)"
        by (auto simp: current_row_phase_def emits_unmatched_def Let_def split: if_splits)
      with inv it noemit show ?thesis by (auto simp: spec_row_output_Nil)
    qed
  qed
qed


text \<open>The partition that lines 118-129 choose is the one of the spec.\<close>

lemma probe_partition_spec:
  assumes "probe_partition E s hash = Some (r, part)"
  shows "part = (if input_partition s \<noteq> None \<and> hash_tbl (the (input_partition s)) \<noteq> None
                 then the (input_partition s)
                 else hash_partitions s ! route E hash) \<and>
         (case r of
            Input_partition \<Rightarrow> input_partition s = Some part
          | Hash_partition i \<Rightarrow> i < length (hash_partitions s) \<and> hash_partitions s ! i = part)"
  using assms
  by (auto simp: probe_partition_def partition_idx_def hash_partition_def route_def Let_def
      split: if_splits option.splits)

lemma spec_candidates_cong:
  "input_partition s' = input_partition s \<Longrightarrow> hash_partitions s' = hash_partitions s \<Longrightarrow>
   spec_candidates E s' p = spec_candidates E s p"
  by (cases "EvalAndHashProbe E p") (simp_all add: spec_candidates_def)

lemma spec_candidates_store:
  assumes "case r of
             Input_partition \<Rightarrow> input_partition s = Some part
           | Hash_partition i \<Rightarrow> i < length (hash_partitions s) \<and> hash_partitions s ! i = part"
  shows "spec_candidates E (store_partition r (part\<lparr>probe_rows := x\<rparr>) s) p =
         spec_candidates E s p"
proof (cases r)
  case Input_partition
  with assms show ?thesis
    by (cases "EvalAndHashProbe E p")
      (simp_all add: spec_candidates_def store_partition_def Let_def)
next
  case (Hash_partition i)
  with assms have i: "i < length (hash_partitions s)" "hash_partitions s ! i = part" by simp_all
  have nth: "is_closed (((hash_partitions s)[i := part\<lparr>probe_rows := x\<rparr>]) ! j) =
               is_closed (hash_partitions s ! j) \<and>
             is_spilled (((hash_partitions s)[i := part\<lparr>probe_rows := x\<rparr>]) ! j) =
               is_spilled (hash_partitions s ! j) \<and>
             hash_tbl (((hash_partitions s)[i := part\<lparr>probe_rows := x\<rparr>]) ! j) =
               hash_tbl (hash_partitions s ! j)" for j
    using i by (cases "i = j") simp_all
  show ?thesis
    by (cases "EvalAndHashProbe E p")
      (simp_all add: spec_candidates_def store_partition_def Hash_partition Let_def nth)
qed

text \<open>
  Lines 113-145, when the loop goes on: the node has taken the next row of the batch, as
  an unmatched row whose match iterator holds the candidates of the spec.
\<close>

lemma next_probe_row_takes:
  assumes "next_probe_row E s = (None, s2)" "hash_tbl_iterator s = []"
  shows "\<exists>row. GetRow (probe_batch s) (probe_batch_pos s) = Some row \<and>
           current_probe_row s2 = Some row \<and> \<not> matched_probe s2 \<and>
           hash_tbl_iterator s2 = spec_candidates E s row \<and>
           probe_batch s2 = probe_batch s \<and> probe_batch_pos s2 = probe_batch_pos s + 1 \<and>
           ht_matched s2 = ht_matched s \<and>
           (\<forall>p. spec_candidates E s2 p = spec_candidates E s p)"
proof -
  from assms(1) obtain row where row: "GetRow (probe_batch s) (probe_batch_pos s) = Some row"
    and ne: "probe_batch_pos s \<noteq> num_rows (probe_batch s)"
    by (auto simp: next_probe_row_def Let_def split: if_splits option.splits)
  let ?s1 = "s\<lparr>current_probe_row := Some row, probe_batch_pos := probe_batch_pos s + 1,
               matched_probe := False\<rparr>"
  have rc1: "spec_candidates E ?s1 p = spec_candidates E s p" for p
    by (rule spec_candidates_cong) simp_all
  show ?thesis
  proof (cases "EvalAndHashProbe E row")
    case None
    with assms row ne have "s2 = ?s1" by (simp add: next_probe_row_def Let_def)
    with row None assms(2) rc1 show ?thesis by (simp add: spec_candidates_def)
  next
    case (Some hash)
    with assms(1) row ne obtain r part where pp: "probe_partition E ?s1 hash = Some (r, part)"
      by (auto simp: next_probe_row_def Let_def split: option.splits)
    note spec = probe_partition_spec[OF pp]
    from spec have part: "part = (if input_partition s \<noteq> None \<and> hash_tbl (the (input_partition s)) \<noteq> None
                 then the (input_partition s)
                 else hash_partitions s ! route E hash)"
      by simp
    have rc: "spec_candidates E s row =
              (if is_closed part \<or> is_spilled part then []
               else (case hash_tbl part of None \<Rightarrow> [] | Some table \<Rightarrow> Find E table row hash))"
      unfolding part by (simp add: spec_candidates_def Some Let_def)
    show ?thesis
    proof (cases "is_closed part")
      case True
      with assms row ne Some pp have "s2 = ?s1" by (simp add: next_probe_row_def Let_def)
      with row True assms(2) rc1 rc show ?thesis by simp
    next
      case nc: False
      show ?thesis
      proof (cases "is_spilled part")
        case True
        with nc assms(1) row ne Some pp obtain stream where
          s2: "s2 = store_partition r (part\<lparr>probe_rows := Some (stream @ [row])\<rparr>) ?s1"
          by (auto simp: next_probe_row_def Let_def AppendRow_def
              split: option.splits prod.splits bool.splits)
        from spec have "case r of
             Input_partition \<Rightarrow> input_partition ?s1 = Some part
           | Hash_partition i \<Rightarrow> i < length (hash_partitions ?s1) \<and> hash_partitions ?s1 ! i = part"
          by simp
        from spec_candidates_store[OF this]
        have rc2: "spec_candidates E s2 p = spec_candidates E s p" for p
          by (simp add: s2 rc1)
        have "current_probe_row s2 = Some row" "\<not> matched_probe s2"
          "hash_tbl_iterator s2 = []" "probe_batch s2 = probe_batch s"
          "probe_batch_pos s2 = probe_batch_pos s + 1" "ht_matched s2 = ht_matched s"
          using assms(2) by (simp_all add: s2 store_partition_def split: partition_ref.splits)
        with row True rc rc2 show ?thesis by simp
      next
        case False
        with nc assms(1) row ne Some pp obtain table where
          tb: "hash_tbl part = Some table" and
          s2: "s2 = ?s1\<lparr>hash_tbl_iterator := Find E table row hash\<rparr>"
          by (auto simp: next_probe_row_def Let_def split: option.splits)
        have "spec_candidates E s2 p = spec_candidates E s p" for p
          unfolding s2 by (rule spec_candidates_cong) simp_all
        with row nc False tb rc show ?thesis by (simp add: s2)
      qed
    qed
  qed
qed

lemma remaining_rows_take:
  assumes "GetRow (probe_batch s) (probe_batch_pos s) = Some row"
    "probe_batch s2 = probe_batch s" "probe_batch_pos s2 = probe_batch_pos s + 1"
  shows "remaining_rows s = row # remaining_rows s2"
proof -
  from assms(1) have pos: "0 \<le> probe_batch_pos s"
    "nat (probe_batch_pos s) < length (tuple_rows (probe_batch s))"
    "row = tuple_rows (probe_batch s) ! nat (probe_batch_pos s)"
    by (auto simp: GetRow_def num_rows_def split: if_splits)
  then have "nat (probe_batch_pos s + 1) = Suc (nat (probe_batch_pos s))" by simp
  with pos assms(2,3) show ?thesis
    by (simp add: remaining_rows_def Cons_nth_drop_Suc)
qed

lemma next_probe_row_stream:
  assumes "next_probe_row E s = (None, s2)" "hash_tbl_iterator s = []"
  shows "spec_output E JoinOp s2 =
           concat (map (\<lambda>p. spec_row_output E JoinOp p (spec_candidates E s p) False)
                     (remaining_rows s)) \<and>
         spec_matched E JoinOp s2 =
           ht_matched s \<union>
           (if JoinOp = RIGHT_OUTER_JOIN \<or> JoinOp = FULL_OUTER_JOIN
            then (\<Union>p \<in> set (remaining_rows s).
                    {c \<in> set (spec_candidates E s p). join_match E p c})
            else {}) \<and>
         current_probe_row s2 \<noteq> None \<and> 0 \<le> probe_batch_pos s"
proof -
  from next_probe_row_takes[OF assms] obtain row where
    row: "GetRow (probe_batch s) (probe_batch_pos s) = Some row"
    and s2: "current_probe_row s2 = Some row" "\<not> matched_probe s2"
      "hash_tbl_iterator s2 = spec_candidates E s row"
      "probe_batch s2 = probe_batch s" "probe_batch_pos s2 = probe_batch_pos s + 1"
      "ht_matched s2 = ht_matched s"
    and rc: "\<And>p. spec_candidates E s2 p = spec_candidates E s p"
    by blast
  from row have pos: "0 \<le> probe_batch_pos s" by (auto simp: GetRow_def split: if_splits)
  note rem = remaining_rows_take[OF row s2(4,5)]
  from pos s2 rc rem show ?thesis
    by (auto simp: spec_output_def spec_matched_def)
qed

lemma next_probe_row_end:
  assumes "next_probe_row E s = (Some goto_end, s2)" "0 \<le> probe_batch_pos s"
  shows "s2 = s\<lparr>current_probe_row := None\<rparr> \<and> remaining_rows s = []"
  using assms unfolding next_probe_row_def Let_def
  by (auto simp: remaining_rows_def num_rows_def AppendRow_def
      split: if_splits option.splits prod.splits bool.splits)


lemma current_row_phase_call_inv:
  assumes "call_inv E JoinOp outp em sl" "0 \<le> probe_batch_pos (fst sl)"
    and "current_row_phase E JoinOp max_rows sl = (g, sl1)"
  shows "call_inv E JoinOp outp em sl1 \<and> probe_batch_pos (fst sl1) = probe_batch_pos (fst sl) \<and>
         (g \<longrightarrow> num_rows_added (snd sl1) = max_rows) \<and>
         (\<not> g \<longrightarrow> hash_tbl_iterator (fst sl1) = [] \<and>
            spec_output E JoinOp (fst sl1) =
              concat (map (\<lambda>p. spec_row_output E JoinOp p (spec_candidates E (fst sl1) p) False)
                        (remaining_rows (fst sl1))) \<and>
            spec_matched E JoinOp (fst sl1) =
              ht_matched (fst sl1) \<union>
              (if JoinOp = RIGHT_OUTER_JOIN \<or> JoinOp = FULL_OUTER_JOIN
               then (\<Union>p \<in> set (remaining_rows (fst sl1)).
                       {c \<in> set (spec_candidates E (fst sl1) p). join_match E p c})
               else {}))"
proof (cases "current_probe_row (fst sl)")
  case None
  with assms(3) have "g = False" "sl1 = sl" by (simp_all add: current_row_phase_def)
  with assms(1,2) None show ?thesis
    by (auto simp: call_inv_def spec_output_def spec_matched_def)
next
  case (Some p)
  let ?s = "fst sl"
  let ?rest = "concat (map (\<lambda>p. spec_row_output E JoinOp p (spec_candidates E ?s p) False)
                        (remaining_rows ?s))"
  let ?marks = "if JoinOp = RIGHT_OUTER_JOIN \<or> JoinOp = FULL_OUTER_JOIN
               then (\<Union>p \<in> set (remaining_rows ?s).
                       {c \<in> set (spec_candidates E ?s p). join_match E p c})
               else {}"
  let ?o = "row_slots (snd sl) @
              spec_row_output E JoinOp p (hash_tbl_iterator ?s) (matched_probe ?s)"
  let ?m = "ht_matched ?s \<union>
       (if JoinOp = RIGHT_OUTER_JOIN \<or> JoinOp = FULL_OUTER_JOIN
        then {c \<in> set (hash_tbl_iterator ?s). join_match E p c} else {})"
  from assms(1) Some have ri: "row_inv E JoinOp p ?s ?o ?m sl"
    by (simp add: row_inv_def call_inv_def)
  from assms(1,2) Some have o: "outp = ?o @ ?rest" and m: "em = ?m \<union> ?marks"
    by (auto simp: call_inv_def spec_output_def spec_matched_def)
  note ph = current_row_phase_row_inv[OF ri assms(3)]
  then have ri1: "row_inv E JoinOp p ?s ?o ?m sl1" by simp
  then have fr: "current_probe_row (fst sl1) = Some p" "probe_batch (fst sl1) = probe_batch ?s"
    "probe_batch_pos (fst sl1) = probe_batch_pos ?s"
    "input_partition (fst sl1) = input_partition ?s"
    "hash_partitions (fst sl1) = hash_partitions ?s"
    by (simp_all add: row_inv_def)
  have rc: "spec_candidates E (fst sl1) q = spec_candidates E ?s q" for q
    by (rule spec_candidates_cong) (simp_all add: fr)
  have rem: "remaining_rows (fst sl1) = remaining_rows ?s"
    by (simp add: remaining_rows_def fr)
  from ri1 have o1: "row_slots (snd sl1) @
       spec_row_output E JoinOp p (hash_tbl_iterator (fst sl1)) (matched_probe (fst sl1)) = ?o"
    and m1: "ht_matched (fst sl1) \<union>
       (if JoinOp = RIGHT_OUTER_JOIN \<or> JoinOp = FULL_OUTER_JOIN
        then {c \<in> set (hash_tbl_iterator (fst sl1)). join_match E p c} else {}) = ?m"
    and n1: "num_rows_added (snd sl1) = int (length (row_slots (snd sl1)))"
    by (simp_all add: row_inv_def)
  have po: "spec_output E JoinOp (fst sl1) =
       spec_row_output E JoinOp p (hash_tbl_iterator (fst sl1)) (matched_probe (fst sl1)) @ ?rest"
    using assms(2) by (simp add: spec_output_def fr rc rem)
  have "row_slots (snd sl1) @ spec_output E JoinOp (fst sl1) = outp"
    unfolding po o using o1 by simp
  moreover have em1: "spec_matched E JoinOp (fst sl1) =
       (ht_matched (fst sl1) \<union>
       (if JoinOp = RIGHT_OUTER_JOIN \<or> JoinOp = FULL_OUTER_JOIN
        then {c \<in> set (hash_tbl_iterator (fst sl1)). join_match E p c} else {})) \<union> ?marks"
    using assms(2) by (auto simp: spec_matched_def fr rc rem)
  then have "spec_matched E JoinOp (fst sl1) = em" unfolding m m1 .
  ultimately have ci: "call_inv E JoinOp outp em sl1"
    using n1 fr(1) by (simp add: call_inv_def)
  have "spec_output E JoinOp (fst sl1) = ?rest \<and>
        spec_matched E JoinOp (fst sl1) = ht_matched (fst sl1) \<union> ?marks" if "\<not> g"
  proof -
    from ph that have "hash_tbl_iterator (fst sl1) = []"
      "spec_row_output E JoinOp p [] (matched_probe (fst sl1)) = []" by simp_all
    with po em1 show ?thesis by simp
  qed
  with ci ph fr(3) show ?thesis by (simp add: rc rem)
qed

lemma probe_iteration_call_inv:
  assumes "call_inv E JoinOp outp em sl" "0 \<le> probe_batch_pos (fst sl)"
    and "probe_iteration E JoinOp max_rows sl = (x, sl1)"
  shows "case x of
           None \<Rightarrow> call_inv E JoinOp outp em sl1
         | Some e \<Rightarrow>
             e = goto_end \<longrightarrow>
               call_inv E JoinOp outp em sl1 \<and>
               (num_rows_added (snd sl1) \<noteq> max_rows \<longrightarrow>
                  spec_output E JoinOp (fst sl1) = [] \<and> ht_matched (fst sl1) = em)"
proof -
  obtain g s1 l1 where ph: "current_row_phase E JoinOp max_rows sl = (g, s1, l1)"
    by (metis prod_cases3)
  note p = current_row_phase_call_inv[OF assms(1,2) ph]
  then have ci: "call_inv E JoinOp outp em (s1, l1)" by simp
  show ?thesis
  proof (cases g)
    case True
    with assms(3) ph have "x = Some goto_end" "sl1 = (s1, l1)"
      by (simp_all add: probe_iteration_def)
    with p True show ?thesis by simp
  next
    case False
    with p have it: "hash_tbl_iterator s1 = []"
      and po: "spec_output E JoinOp s1 =
              concat (map (\<lambda>p. spec_row_output E JoinOp p (spec_candidates E s1 p) False)
                        (remaining_rows s1))"
      and em: "spec_matched E JoinOp s1 =
              ht_matched s1 \<union>
              (if JoinOp = RIGHT_OUTER_JOIN \<or> JoinOp = FULL_OUTER_JOIN
               then (\<Union>p \<in> set (remaining_rows s1).
                       {c \<in> set (spec_candidates E s1 p). join_match E p c})
               else {})"
      and pos: "0 \<le> probe_batch_pos s1"
      using assms(2) by simp_all
    obtain s2 where np: "next_probe_row E s1 = (x, s2)" and sl1: "sl1 = (s2, l1)"
      using assms(3) ph False by (auto simp: probe_iteration_def split: prod.splits)
    show ?thesis
    proof (cases x)
      case None
      from next_probe_row_stream[OF np[unfolded None] it, of JoinOp] po em ci
      have "call_inv E JoinOp outp em (s2, l1)"
        by (auto simp: call_inv_def)
      with None sl1 show ?thesis by simp
    next
      case (Some e)
      have "call_inv E JoinOp outp em (s2, l1) \<and> spec_output E JoinOp s2 = [] \<and>
            ht_matched s2 = em" if "e = goto_end"
      proof -
        from next_probe_row_end[OF np[unfolded Some that] pos]
        have s2: "s2 = s1\<lparr>current_probe_row := None\<rparr>" and rem: "remaining_rows s1 = []"
          by simp_all
        have rem2: "remaining_rows s2 = []" using rem by (simp add: s2 remaining_rows_def)
        have po2: "spec_output E JoinOp s2 = []"
          by (simp add: spec_output_def rem2) (simp add: s2)
        have em2: "spec_matched E JoinOp s2 = ht_matched s2"
          by (simp add: spec_matched_def rem2) (simp add: s2)
        from po rem have "spec_output E JoinOp s1 = []" by simp
        moreover from em rem have "spec_matched E JoinOp s1 = ht_matched s1" by simp
        ultimately show ?thesis
          using ci po2 em2 it by (simp add: call_inv_def) (simp add: s2)
      qed
      with Some sl1 show ?thesis by simp
    qed
  qed
qed

lemma probe_loop_call_inv:
  assumes "call_inv E JoinOp outp em sl"
    and "probe_loop E JoinOp max_rows sl = (goto_end, sl1)"
  shows "call_inv E JoinOp outp em sl1 \<and>
         (num_rows_added (snd sl1) \<noteq> max_rows \<longrightarrow>
            spec_output E JoinOp (fst sl1) = [] \<and> ht_matched (fst sl1) = em)"
proof -
  let ?R = "\<lambda>res. fst res = goto_end \<longrightarrow>
              call_inv E JoinOp outp em (snd res) \<and>
              (num_rows_added (snd (snd res)) \<noteq> max_rows \<longrightarrow>
                 spec_output E JoinOp (fst (snd res)) = [] \<and> ht_matched (fst (snd res)) = em)"
  have "?R (probe_loop E JoinOp max_rows sl)"
  proof (rule probe_loop_rule[where Q="call_inv E JoinOp outp em"])
    show "call_inv E JoinOp outp em sl" by (rule assms(1))
  next
    fix sl :: "PartitionedHashJoinNode \<times> probe_locals"
    assume "call_inv E JoinOp outp em sl" "probe_batch_pos (fst sl) < 0"
    then show "?R (goto_end, sl)"
      by (auto simp: call_inv_def spec_output_def spec_matched_def)
  next
    fix sl :: "PartitionedHashJoinNode \<times> probe_locals" and x sl1
    assume q: "call_inv E JoinOp outp em sl" "0 \<le> probe_batch_pos (fst sl)"
      "probe_iteration E JoinOp max_rows sl = (x, sl1)"
    from probe_iteration_call_inv[OF q]
    show "case x of None \<Rightarrow> call_inv E JoinOp outp em sl1 | Some e \<Rightarrow> ?R (e, sl1)"
      by (cases x) simp_all
  qed
  with assms(2) show ?thesis by simp
qed

text \<open>
  What a successful call does, for a node in which line 104's assertion holds on entry (no
  candidate is left in the match iterator unless a probe row is under way): the rows that it
  commits and the output still to come of the node it leaves make up the output that was
  to come on entry; the build rows to be flagged stay the same; and if the call has not
  filled the output batch, nothing is left to come and all these build rows are flagged.
\<close>

lemma ProcessProbeBatch_output:
  assumes "ProcessProbeBatch E JoinOp out_batch s = Some (OK, out_batch', s')"
    and "current_probe_row s = None \<longrightarrow> hash_tbl_iterator s = []"
  shows "\<exists>new. tuple_rows out_batch' = tuple_rows out_batch @ new \<and>
           spec_output E JoinOp s = new @ spec_output E JoinOp s' \<and>
           spec_matched E JoinOp s' = spec_matched E JoinOp s \<and>
           (int (length new) \<noteq> capacity out_batch - num_rows out_batch \<longrightarrow>
              spec_output E JoinOp s' = [] \<and> ht_matched s' = spec_matched E JoinOp s)"
proof -
  let ?m = "capacity out_batch - num_rows out_batch"
  let ?l0 = "\<lparr>num_rows_added = 0, row_slots = []\<rparr>"
  obtain x s1 l1 where pl: "probe_loop E JoinOp ?m (s, ?l0) = (x, s1, l1)"
    by (metis prod_cases3)
  have x: "x = goto_end"
  proof (cases x)
    case return_status
    with pl assms(1) have "status s1 = OK" by (auto simp: ProcessProbeBatch_def Let_def)
    with probe_loop_return[OF pl[unfolded return_status]] show ?thesis by auto
  next
    case undefined_behaviour
    with pl assms(1) show ?thesis by (simp add: ProcessProbeBatch_def Let_def)
  qed simp
  with pl assms(1)
  have out: "tuple_rows out_batch' =
               tuple_rows out_batch @ take (nat (num_rows_added l1)) (row_slots l1)"
    and s': "s' = s1\<lparr>num_rows_returned := num_rows_returned s1 + num_rows_added l1\<rparr>"
    by (auto simp: ProcessProbeBatch_def Let_def CommitRows_def)
  have rc: "spec_candidates E s' p = spec_candidates E s1 p" for p
    by (rule spec_candidates_cong) (simp_all add: s')
  have f: "hash_tbl_iterator s' = hash_tbl_iterator s1" "matched_probe s' = matched_probe s1"
    "current_probe_row s' = current_probe_row s1" "probe_batch s' = probe_batch s1"
    "probe_batch_pos s' = probe_batch_pos s1" "ht_matched s' = ht_matched s1"
    by (simp_all add: s')
  have po: "spec_output E JoinOp s' = spec_output E JoinOp s1"
    by (simp add: spec_output_def remaining_rows_def rc f cong: option.case_cong)
  have em: "spec_matched E JoinOp s' = spec_matched E JoinOp s1"
    by (simp add: spec_matched_def remaining_rows_def rc f cong: option.case_cong)
  have "call_inv E JoinOp (spec_output E JoinOp s) (spec_matched E JoinOp s) (s, ?l0)"
    using assms(2) by (simp add: call_inv_def)
  from probe_loop_call_inv[OF this pl[unfolded x]]
  have ci: "call_inv E JoinOp (spec_output E JoinOp s) (spec_matched E JoinOp s) (s1, l1)"
    and ex: "num_rows_added l1 \<noteq> ?m \<longrightarrow>
            spec_output E JoinOp s1 = [] \<and> ht_matched s1 = spec_matched E JoinOp s"
    by simp_all
  from ci have n: "num_rows_added l1 = int (length (row_slots l1))"
    and o: "row_slots l1 @ spec_output E JoinOp s1 = spec_output E JoinOp s"
    and m: "spec_matched E JoinOp s1 = spec_matched E JoinOp s"
    by (simp_all add: call_inv_def)
  from out n have out': "tuple_rows out_batch' = tuple_rows out_batch @ row_slots l1" by simp
  have "ht_matched s' = ht_matched s1" by (simp add: s')
  with out' o m ex n po em show ?thesis by (intro exI[of _ "row_slots l1"]) simp
qed

section \<open>The rows of the output\<close>

lemma spec_row_output_fst:
  "r \<in> set (spec_row_output E JoinOp p cands matched) \<Longrightarrow> fst r = p"
  by (auto simp: spec_row_output_def CreateOutputRow_def Let_def split: if_splits
      dest: in_set_takeD)




lemma take_1_find:
  "take (Suc 0) (filter P xs) = (case find P xs of None \<Rightarrow> [] | Some x \<Rightarrow> [x])"
  by (induction xs) simp_all

lemma spec_row_output_semi_row:
  assumes "r \<in> set (spec_row_output E LEFT_SEMI_JOIN p cands matched)"
  shows "\<exists>c. r = CreateOutputRow p (Some c) \<and> find (join_match E p) cands = Some c"
proof (cases "find (join_match E p) cands")
  case None
  with assms show ?thesis
    by (simp add: spec_row_output_def emits_unmatched_def Let_def take_1_find)
next
  case (Some c)
  with assms show ?thesis
    by (auto simp: spec_row_output_def emits_unmatched_def Let_def take_1_find
        split: if_splits)
qed

lemma spec_row_output_semi_length:
  "length (spec_row_output E LEFT_SEMI_JOIN p cands matched) \<le> 1"
proof -
  have "length (filter (EvalConjuncts (conjunct_ctxs E))
          (map (\<lambda>c. CreateOutputRow p (Some c)) (take 1 (filter (join_match E p) cands))))
        \<le> length (map (\<lambda>c. CreateOutputRow p (Some c)) (take 1 (filter (join_match E p) cands)))"
    by (rule length_filter_le)
  then show ?thesis
    by (simp add: spec_row_output_def emits_unmatched_def Let_def)
qed

text \<open>Where a row of the output that is to come of a node comes from.\<close>

lemma spec_output_row:
  "r \<in> set (spec_output E JoinOp s) \<longleftrightarrow>
     0 \<le> probe_batch_pos s \<and>
     ((\<exists>p. current_probe_row s = Some p \<and>
           r \<in> set (spec_row_output E JoinOp p (hash_tbl_iterator s) (matched_probe s))) \<or>
      (\<exists>p \<in> set (remaining_rows s).
           r \<in> set (spec_row_output E JoinOp p (spec_candidates E s p) False)))"
  by (cases "current_probe_row s") (auto simp: spec_output_def)


lemma count_concat_le:
  assumes "\<And>q. length (f q) \<le> 1" "\<And>q r. r \<in> set (f q) \<Longrightarrow> fst r = q"
  shows "length (filter (\<lambda>r. fst r = p) (concat (map f qs))) \<le> count_list qs p"
proof (induction qs)
  case Nil
  then show ?case by simp
next
  case (Cons q qs)
  have "length (filter (\<lambda>r. fst r = p) (f q)) \<le> (if q = p then 1 else 0)"
  proof (cases "q = p")
    case True
    from order_trans[OF length_filter_le[of "\<lambda>r. fst r = p" "f q"] assms(1)[of q]] True
    show ?thesis by simp
  next
    case False
    with assms(2) have "filter (\<lambda>r. fst r = p) (f q) = []"
      by (auto simp: filter_empty_conv)
    with False show ?thesis by simp
  qed
  with Cons show ?case by auto
qed

section \<open>The buffers of the partitions\<close>

lemma spec_routed_rows_Nil: "spec_routed_rows E hash_of i [] = []"
  by (simp add: spec_routed_rows_def)

lemma spec_routed_rows_Cons:
  "spec_routed_rows E hash_of i (row # rows) =
     (if map_option (route E) (hash_of row) = Some i then [row] else []) @
     spec_routed_rows E hash_of i rows"
  by (simp add: spec_routed_rows_def)




















lemma ProcessProbeBatch_capacity:
  "ProcessProbeBatch E JoinOp out_batch s = Some (st, out_batch', s') \<Longrightarrow>
   capacity out_batch' = capacity out_batch"
  by (auto simp: ProcessProbeBatch_def Let_def CommitRows_def
      split: prod.splits loop_exit.splits)

text \<open>
  A call that returns \<^verbatim>\<open>Status::OK\<close> and leaves room in the output batch has committed the
  whole output that was to come, and has flagged all the build rows that were to be.
\<close>

lemma ProcessProbeBatch_complete:
  assumes "ProcessProbeBatch E JoinOp out_batch s = Some (OK, out_batch', s')"
    and "current_probe_row s = None \<longrightarrow> hash_tbl_iterator s = []"
    and "\<not> AtCapacity out_batch'"
  shows "tuple_rows out_batch' = tuple_rows out_batch @ spec_output E JoinOp s \<and>
         spec_output E JoinOp s' = [] \<and> ht_matched s' = spec_matched E JoinOp s"
proof -
  from ProcessProbeBatch_output[OF assms(1,2)] obtain new where
    new: "tuple_rows out_batch' = tuple_rows out_batch @ new"
      "spec_output E JoinOp s = new @ spec_output E JoinOp s'"
    and ex: "int (length new) \<noteq> capacity out_batch - num_rows out_batch \<longrightarrow>
              spec_output E JoinOp s' = [] \<and> ht_matched s' = spec_matched E JoinOp s"
    by blast
  from assms(3) ProcessProbeBatch_capacity[OF assms(1)] new(1)
  have "int (length new) \<noteq> capacity out_batch - num_rows out_batch"
    by (simp add: AtCapacity_def num_rows_def)
  with ex new show ?thesis by simp
qed

text \<open>The rows that a call commits are among those that were to come.\<close>

lemma ProcessProbeBatch_committed:
  assumes "ProcessProbeBatch E JoinOp out_batch s = Some (OK, out_batch', s')"
    and "current_probe_row s = None \<longrightarrow> hash_tbl_iterator s = []"
  shows "\<exists>new. tuple_rows out_batch' = tuple_rows out_batch @ new \<and>
           spec_output E JoinOp s = new @ spec_output E JoinOp s' \<and>
           set new \<subseteq> set (spec_output E JoinOp s) \<and>
           (\<forall>P. length (filter P new) \<le> length (filter P (spec_output E JoinOp s)))"
proof -
  from ProcessProbeBatch_output[OF assms(1,2)] obtain new where
    new: "tuple_rows out_batch' = tuple_rows out_batch @ new"
      "spec_output E JoinOp s = new @ spec_output E JoinOp s'"
    by blast
  then show ?thesis by (intro exI[of _ new]) simp
qed


section \<open>Partition routing over a call\<close>

lemma partition_idx_route:
  "partition_idx E hash = Some idx \<Longrightarrow> unat idx = route E hash"
  by (auto simp: partition_idx_def route_def Let_def split: if_splits)




section \<open>Unmatched probe rows over a call\<close>



section \<open>Left-anti joins\<close>




section \<open>Left-semi joins\<close>

lemma spec_output_semi_count:
  "length (filter (\<lambda>r. fst r = p) (spec_output E LEFT_SEMI_JOIN s))
   \<le> count_list (remaining_rows s) p + (if current_probe_row s = Some p then 1 else 0)"
proof (cases "probe_batch_pos s < 0")
  case True
  then show ?thesis by (simp add: spec_output_def)
next
  case False
  let ?f = "\<lambda>q. spec_row_output E LEFT_SEMI_JOIN q (spec_candidates E s q) False"
  have rest: "length (filter (\<lambda>r. fst r = p) (concat (map ?f (remaining_rows s))))
              \<le> count_list (remaining_rows s) p"
  proof (rule count_concat_le)
    fix q
    show "length (?f q) \<le> 1" by (rule spec_row_output_semi_length)
  next
    fix q r
    assume "r \<in> set (?f q)"
    then show "fst r = q" by (rule spec_row_output_fst)
  qed
  have cur: "length (filter (\<lambda>r. fst r = p)
               (case current_probe_row s of
                  None \<Rightarrow> []
                | Some q \<Rightarrow>
                    spec_row_output E LEFT_SEMI_JOIN q (hash_tbl_iterator s) (matched_probe s)))
             \<le> (if current_probe_row s = Some p then 1 else 0)"
  proof (cases "current_probe_row s")
    case None
    then show ?thesis by simp
  next
    case (Some q)
    let ?o = "spec_row_output E LEFT_SEMI_JOIN q (hash_tbl_iterator s) (matched_probe s)"
    show ?thesis
    proof (cases "q = p")
      case True
      from order_trans[OF length_filter_le[of "\<lambda>r. fst r = p" ?o]
          spec_row_output_semi_length[of E q "hash_tbl_iterator s" "matched_probe s"]]
      show ?thesis using Some True by simp
    next
      case False
      then have "filter (\<lambda>r. fst r = p) ?o = []"
        by (auto simp: filter_empty_conv dest: spec_row_output_fst)
      with Some False show ?thesis by simp
    qed
  qed
  from False rest cur show ?thesis by (simp add: spec_output_def)
qed

lemma spec_output_semi_row:
  assumes "r \<in> set (spec_output E LEFT_SEMI_JOIN s)"
  shows "\<exists>b. snd r = Some b \<and>
           (current_probe_row s = Some (fst r) \<and>
              find (join_match E (fst r)) (hash_tbl_iterator s) = Some b \<or>
            fst r \<in> set (remaining_rows s) \<and>
              find (join_match E (fst r)) (spec_candidates E s (fst r)) = Some b)"
proof -
  from assms consider
    (cur) q where "current_probe_row s = Some q"
      "r \<in> set (spec_row_output E LEFT_SEMI_JOIN q (hash_tbl_iterator s) (matched_probe s))"
    | (rem) q where "q \<in> set (remaining_rows s)"
      "r \<in> set (spec_row_output E LEFT_SEMI_JOIN q (spec_candidates E s q) False)"
    by (auto simp: spec_output_row)
  then show ?thesis
  proof cases
    case cur
    from spec_row_output_semi_row[OF cur(2)] cur(1) show ?thesis
      by (auto simp: CreateOutputRow_def)
  next
    case rem
    from spec_row_output_semi_row[OF rem(2)] rem(1) show ?thesis
      by (auto simp: CreateOutputRow_def)
  qed
qed

text \<open>
  The rows that a call commits under a left-semi join: for every probe row \<open>p\<close>, no more
  of them than \<open>p\<close> occurs among the probe rows of the call, and each of them pairs its
  probe row with the first candidate that passes the join conjuncts.
\<close>

lemma ProcessProbeBatch_semi_rows:
  assumes "ProcessProbeBatch E LEFT_SEMI_JOIN out_batch s = Some (OK, out_batch', s')"
    and "current_probe_row s = None \<longrightarrow> hash_tbl_iterator s = []"
  shows "\<exists>new. tuple_rows out_batch' = tuple_rows out_batch @ new \<and>
           length (filter (\<lambda>r. fst r = p) new)
             \<le> count_list (remaining_rows s) p + (if current_probe_row s = Some p then 1 else 0) \<and>
           (\<forall>r \<in> set new. \<exists>b. snd r = Some b \<and>
              (current_probe_row s = Some (fst r) \<and>
                 find (join_match E (fst r)) (hash_tbl_iterator s) = Some b \<or>
               fst r \<in> set (remaining_rows s) \<and>
                 find (join_match E (fst r)) (spec_candidates E s (fst r)) = Some b)) \<and>
           (\<not> AtCapacity out_batch' \<longrightarrow> new = spec_output E LEFT_SEMI_JOIN s)"
proof -
  from ProcessProbeBatch_committed[OF assms] obtain new where
    new: "tuple_rows out_batch' = tuple_rows out_batch @ new"
    and sub: "set new \<subseteq> set (spec_output E LEFT_SEMI_JOIN s)"
    and len: "\<And>P. length (filter P new) \<le> length (filter P (spec_output E LEFT_SEMI_JOIN s))"
    by blast
  from order_trans[OF len spec_output_semi_count]
  have a: "length (filter (\<lambda>r. fst r = p) new)
             \<le> count_list (remaining_rows s) p + (if current_probe_row s = Some p then 1 else 0)" .
  have b: "\<forall>r \<in> set new. \<exists>b. snd r = Some b \<and>
              (current_probe_row s = Some (fst r) \<and>
                 find (join_match E (fst r)) (hash_tbl_iterator s) = Some b \<or>
               fst r \<in> set (remaining_rows s) \<and>
                 find (join_match E (fst r)) (spec_candidates E s (fst r)) = Some b)"
    using sub spec_output_semi_row[of _ E s] by blast
  have c: "\<not> AtCapacity out_batch' \<longrightarrow> new = spec_output E LEFT_SEMI_JOIN s"
    using ProcessProbeBatch_complete[OF assms] new by auto
  from new a b c show ?thesis by blast
qed

text \<open>
  C6.  Left-semi join.  (1) Take a call of \<^verbatim>\<open>ProcessProbeBatch\<close> that returns
  \<^verbatim>\<open>Status::OK\<close>.  For every probe row \<open>row\<close>, the call commits no more rows of \<open>row\<close> than
  \<open>row\<close> occurs among its probe rows (the rows of the probe batch still to be taken, and the
  row under way on entry): at most one for each occurrence.  Every row committed pairs its
  probe row with the first candidate that passes the join conjuncts, in the match iterator
  for the row under way and in the lookup for a row of the batch; and a call that leaves
  room in the output batch has committed the whole output of its probe rows.  (2) With the
  first candidate \<open>c\<close> that passes the join conjuncts, and whatever candidates \<open>post\<close> stand
  behind it in the match iterator, lines 52-101 write the one row that pairs the probe row
  with \<open>c\<close> if it passes the conjuncts of the node, and nothing otherwise; the iterator is
  reset, so \<open>post\<close> is never visited.  (3) In every case these lines write at most one row
  and leave the iterator at its end, and running them again on the state they leave writes
  nothing.  (4) A call commits no more rows than it takes rows from the probe batch, and
  one more when it resumes a probe row that has candidates left.
\<close>

theorem left_semi_at_most_one_row:
  "(ProcessProbeBatch E LEFT_SEMI_JOIN batch node = Some (OK, batch', node') \<and>
    (current_probe_row node = None \<longrightarrow> hash_tbl_iterator node = []) \<longrightarrow>
      (\<exists>new. tuple_rows batch' = tuple_rows batch @ new \<and>
         length (filter (\<lambda>r. fst r = row) new)
           \<le> count_list (remaining_rows node) row +
              (if current_probe_row node = Some row then 1 else 0) \<and>
         (\<forall>r \<in> set new. \<exists>b. snd r = Some b \<and>
            (current_probe_row node = Some (fst r) \<and>
               find (join_match E (fst r)) (hash_tbl_iterator node) = Some b \<or>
             fst r \<in> set (remaining_rows node) \<and>
               find (join_match E (fst r)) (spec_candidates E node (fst r)) = Some b)) \<and>
         (\<not> AtCapacity batch' \<longrightarrow> new = spec_output E LEFT_SEMI_JOIN node))) \<and>
   ((current_probe_row s = Some p \<and> hash_tbl_iterator s = pre @ c # post \<and>
    (\<forall>x \<in> set pre. \<not> join_match E p x) \<and> join_match E p c \<longrightarrow>
      current_row_phase E LEFT_SEMI_JOIN max_rows (s, l) =
        (if EvalConjuncts (conjunct_ctxs E) (CreateOutputRow p (Some c))
         then (num_rows_added l + 1 = max_rows,
               s\<lparr>matched_probe := True, hash_tbl_iterator := []\<rparr>,
               add_row (CreateOutputRow p (Some c)) l)
         else (False, s\<lparr>matched_probe := True, hash_tbl_iterator := []\<rparr>, l))) \<and>
   (current_probe_row t = Some q \<and>
    current_row_phase E LEFT_SEMI_JOIN max_rows' (t, k) = (g, t', k') \<longrightarrow>
      (k' = k \<or> (\<exists>b. k' = add_row (CreateOutputRow q (Some b)) k)) \<and>
      hash_tbl_iterator t' = [] \<and>
      current_row_phase E LEFT_SEMI_JOIN max_rows'' (t', k'') = (False, t', k'')) \<and>
   (ProcessProbeBatch E LEFT_SEMI_JOIN out_batch u = Some (st, out_batch', u') \<longrightarrow>
      int (length (tuple_rows out_batch')) - int (length (tuple_rows out_batch))
      \<le> probe_batch_pos u' - probe_batch_pos u + row_under_way u))"
proof (rule conjI)
  show "ProcessProbeBatch E LEFT_SEMI_JOIN batch node = Some (OK, batch', node') \<and>
    (current_probe_row node = None \<longrightarrow> hash_tbl_iterator node = []) \<longrightarrow>
      (\<exists>new. tuple_rows batch' = tuple_rows batch @ new \<and>
         length (filter (\<lambda>r. fst r = row) new)
           \<le> count_list (remaining_rows node) row +
              (if current_probe_row node = Some row then 1 else 0) \<and>
         (\<forall>r \<in> set new. \<exists>b. snd r = Some b \<and>
            (current_probe_row node = Some (fst r) \<and>
               find (join_match E (fst r)) (hash_tbl_iterator node) = Some b \<or>
             fst r \<in> set (remaining_rows node) \<and>
               find (join_match E (fst r)) (spec_candidates E node (fst r)) = Some b)) \<and>
         (\<not> AtCapacity batch' \<longrightarrow> new = spec_output E LEFT_SEMI_JOIN node))"
  proof (rule impI)
    assume "ProcessProbeBatch E LEFT_SEMI_JOIN batch node = Some (OK, batch', node') \<and>
      (current_probe_row node = None \<longrightarrow> hash_tbl_iterator node = [])"
    then have h1: "ProcessProbeBatch E LEFT_SEMI_JOIN batch node = Some (OK, batch', node')"
      and h2: "current_probe_row node = None \<longrightarrow> hash_tbl_iterator node = []"
      by simp_all
    show "\<exists>new. tuple_rows batch' = tuple_rows batch @ new \<and>
         length (filter (\<lambda>r. fst r = row) new)
           \<le> count_list (remaining_rows node) row +
              (if current_probe_row node = Some row then 1 else 0) \<and>
         (\<forall>r \<in> set new. \<exists>b. snd r = Some b \<and>
            (current_probe_row node = Some (fst r) \<and>
               find (join_match E (fst r)) (hash_tbl_iterator node) = Some b \<or>
             fst r \<in> set (remaining_rows node) \<and>
               find (join_match E (fst r)) (spec_candidates E node (fst r)) = Some b)) \<and>
         (\<not> AtCapacity batch' \<longrightarrow> new = spec_output E LEFT_SEMI_JOIN node)"
      by (rule ProcessProbeBatch_semi_rows[OF h1 h2])
  qed
qed (rule left_semi_row_steps)

theorem left_semi_at_most_one_row_witness:
  "ProcessProbeBatch example_env LEFT_SEMI_JOIN \<lparr>capacity = 8, tuple_rows = []\<rparr>
     (example_node [1, 5]) =
     Some (OK, \<lparr>capacity = 8, tuple_rows = [(1, Some 11)]\<rparr>,
           (example_node [1, 5])\<lparr>probe_batch_pos := 2, num_rows_returned := 1\<rparr>) \<and>
   current_probe_row (example_node [1, 5]) = None \<and>
   hash_tbl_iterator (example_node [1, 5]) = [] \<and>
   length (filter (\<lambda>r. fst r = 1) [(1 :: nat, Some (11 :: nat))]) = 1 \<and>
   count_list (remaining_rows (example_node [1, 5])) 1 = 1 \<and>
   find (join_match example_env 1) (spec_candidates example_env (example_node [1, 5]) 1) =
     Some 11 \<and>
   \<not> AtCapacity \<lparr>capacity = 8, tuple_rows = [(1 :: nat, Some (11 :: nat))]\<rparr> \<and>
   spec_output example_env LEFT_SEMI_JOIN (example_node [1, 5]) = [(1, Some 11)] \<and>
   current_probe_row ((example_node [1])\<lparr>current_probe_row := Some 1, probe_batch_pos := 1,
         hash_tbl_iterator := [12, 11, 13]\<rparr>) = Some 1 \<and>
   \<not> join_match example_env 1 12 \<and> join_match example_env 1 11 \<and>
   join_match example_env 1 13 \<and>
   current_row_phase example_env LEFT_SEMI_JOIN 5
     ((example_node [1])\<lparr>current_probe_row := Some 1, probe_batch_pos := 1,
         hash_tbl_iterator := [12, 11, 13]\<rparr>, \<lparr>num_rows_added = 0, row_slots = []\<rparr>) =
     (False,
      (example_node [1])\<lparr>current_probe_row := Some 1, probe_batch_pos := 1,
         hash_tbl_iterator := [], matched_probe := True\<rparr>,
      \<lparr>num_rows_added = 1, row_slots = [(1, Some 11)]\<rparr>) \<and>
   current_row_phase example_env LEFT_SEMI_JOIN 7
     ((example_node [1])\<lparr>current_probe_row := Some 1, probe_batch_pos := 1,
         hash_tbl_iterator := [], matched_probe := True\<rparr>,
      \<lparr>num_rows_added = 0, row_slots = []\<rparr>) =
     (False,
      (example_node [1])\<lparr>current_probe_row := Some 1, probe_batch_pos := 1,
         hash_tbl_iterator := [], matched_probe := True\<rparr>,
      \<lparr>num_rows_added = 0, row_slots = []\<rparr>) \<and>
   ProcessProbeBatch example_env LEFT_SEMI_JOIN \<lparr>capacity = 8, tuple_rows = []\<rparr>
     (example_node [1, 3]) =
     Some (OK, \<lparr>capacity = 8, tuple_rows = [(1, Some 11)]\<rparr>,
           (example_node [1, 3])\<lparr>probe_batch_pos := 2, num_rows_returned := 1\<rparr>) \<and>
   row_under_way (example_node [1, 3]) = 0"
  using left_semi_at_most_one_row[where E=example_env
      and batch="\<lparr>capacity = 8, tuple_rows = []\<rparr>" and node="example_node [1, 5]"
      and batch'="\<lparr>capacity = 8, tuple_rows = [(1, Some 11)]\<rparr>"
      and node'="(example_node [1, 5])\<lparr>probe_batch_pos := 2, num_rows_returned := 1\<rparr>"
      and row=1
      and s="(example_node [1])\<lparr>current_probe_row := Some 1, probe_batch_pos := 1,
         hash_tbl_iterator := [12, 11, 13]\<rparr>"
      and p=1 and pre="[12]" and c=11 and post="[13]" and max_rows=5
      and l="\<lparr>num_rows_added = 0, row_slots = []\<rparr>"
      and t="(example_node [1])\<lparr>current_probe_row := Some 1, probe_batch_pos := 1,
         hash_tbl_iterator := [12, 11, 13]\<rparr>"
      and q=1 and max_rows'=5 and k="\<lparr>num_rows_added = 0, row_slots = []\<rparr>" and g=False
      and t'="(example_node [1])\<lparr>current_probe_row := Some 1, probe_batch_pos := 1,
         hash_tbl_iterator := [], matched_probe := True\<rparr>"
      and k'="\<lparr>num_rows_added = 1, row_slots = [(1, Some 11)]\<rparr>"
      and max_rows''=7 and k''="\<lparr>num_rows_added = 0, row_slots = []\<rparr>"
      and out_batch="\<lparr>capacity = 8, tuple_rows = []\<rparr>" and u="example_node [1, 3]"
      and st=OK and out_batch'="\<lparr>capacity = 8, tuple_rows = [(1, Some 11)]\<rparr>"
      and u'="(example_node [1, 3])\<lparr>probe_batch_pos := 2, num_rows_returned := 1\<rparr>"]
  by (simp add: run_simps join_match_def add_row_def row_under_way_def emits_unmatched_def
      spec_output_def spec_row_output_def spec_candidates_def route_def remaining_rows_def)

section \<open>The matched flag over a call\<close>



section \<open>Probe rows without a hash over a call\<close>





end
